theory Spec2Isabelle
  imports Complex_Main "HOL-Library.Sublist"
begin

section \<open>Strings of UTF-16 code units\<close>

text \<open>
  A string of the program is a sequence of UTF-16 code units: \<open>length\<close> is the
  program's \<open>.length\<close>, and the regular expressions of the source (none has the
  \<open>u\<close> flag) match code unit by code unit. Every character the source names lies in
  the Basic Multilingual Plane, one code unit each.
\<close>

type_synonym ustring = "nat list"

definition ascii :: "string \<Rightarrow> ustring" where
  "ascii s = map of_char s"

text \<open>
  The class \<open>\s\<close> of a regular expression, which is also what \<open>trim()\<close> strips:
  WhiteSpace (TAB, VT, FF, SP, NBSP, ZWNBSP U+FEFF and the space separators U+1680,
  U+2000..U+200A, U+202F, U+205F, U+3000) and LineTerminator (LF, CR, U+2028, U+2029).
\<close>

definition isWhiteSpace :: "nat \<Rightarrow> bool" where
  "isWhiteSpace c \<longleftrightarrow>
     (0x09 \<le> c \<and> c \<le> 0x0D) \<or> c = 0x20 \<or> c = 0xA0 \<or> c = 0x1680 \<or>
     (0x2000 \<le> c \<and> c \<le> 0x200A) \<or> c = 0x2028 \<or> c = 0x2029 \<or> c = 0x202F \<or>
     c = 0x205F \<or> c = 0x3000 \<or> c = 0xFEFF"

text \<open>The class \<open>[\u200B-\u200D\uFEFF]\<close>: the zero-width characters the source strips.\<close>

definition isZeroWidth :: "nat \<Rightarrow> bool" where
  "isZeroWidth c \<longleftrightarrow> (0x200B \<le> c \<and> c \<le> 0x200D) \<or> c = 0xFEFF"

text \<open>\<open>.replace(/c/g, " ")\<close> for a class of single code units.\<close>

definition replaceBySpace :: "(nat \<Rightarrow> bool) \<Rightarrow> ustring \<Rightarrow> ustring" where
  "replaceBySpace p s = map (\<lambda>c. if p c then 0x20 else c) s"

text \<open>\<open>.replace(/\s+/g, " ")\<close>: every maximal run of white space becomes one space.\<close>

function collapseWs :: "ustring \<Rightarrow> ustring" where
  "collapseWs [] = []"
| "collapseWs (c # cs) =
     (if isWhiteSpace c then 0x20 # collapseWs (dropWhile isWhiteSpace cs)
      else c # collapseWs cs)"
  by pat_completeness auto
termination
  by (relation "measure length") (auto intro: le_imp_less_Suc length_dropWhile_le)

text \<open>\<open>.trim()\<close>\<close>

definition trimStart :: "ustring \<Rightarrow> ustring" where
  "trimStart s = dropWhile isWhiteSpace s"

definition trimEnd :: "ustring \<Rightarrow> ustring" where
  "trimEnd s = rev (dropWhile isWhiteSpace (rev s))"

definition trim :: "ustring \<Rightarrow> ustring" where
  "trim s = trimEnd (trimStart s)"

section \<open>sanitizeText\<close>

text \<open>
  \<^verbatim>\<open>
  function sanitizeText(s: string): string {
    return (s ?? "").toString().normalize("NFC")
      .replace(/\u00A0/g, " ").replace(/[\u200B-\u200D\uFEFF]/g, "")
      .replace(/[\r\t]/g, " ").replace(/\s+/g, " ").trim();
  }
  \<close>
  The argument is optional in the model because the source guards it with \<open>??\<close>.
  \<open>String.prototype.normalize\<close> is the language's, not the repository's: it is the
  parameter \<open>nfc\<close>, and what is proved for every \<open>nfc\<close> holds for the real one.
  \<open>cleanText\<close> is the chain of replacements and the trim that follow it.
\<close>

definition cleanText :: "ustring \<Rightarrow> ustring" where
  "cleanText z =
     trim (collapseWs (replaceBySpace (\<lambda>c. c = 0x0D \<or> c = 0x09)
       (filter (\<lambda>c. \<not> isZeroWidth c) (replaceBySpace (\<lambda>c. c = 0xA0) z))))"

definition sanitizeText :: "(ustring \<Rightarrow> ustring) \<Rightarrow> ustring option \<Rightarrow> ustring" where
  "sanitizeText nfc s = cleanText (nfc (case s of None \<Rightarrow> [] | Some t \<Rightarrow> t))"

text \<open>
  The part of Unicode's canonical composition that is an algorithm rather than a table:
  the conjoining jamo of Hangul (The Unicode Standard, 3.12). A leading consonant
  U+1100..U+1112 followed by a vowel U+1161..U+1175 composes to the syllable LV, and a
  syllable LV followed by a trailing consonant U+11A8..U+11C2 composes to LVT; only
  adjacent characters compose. On a string whose other characters are inert under
  normalization (ASCII, precomposed syllables, the zero-width characters) this is what
  \<open>normalize("NFC")\<close> returns. It instantiates \<open>nfc\<close> in the closed examples.
\<close>

definition isJamoL :: "nat \<Rightarrow> bool" where
  "isJamoL c \<longleftrightarrow> 0x1100 \<le> c \<and> c \<le> 0x1112"

definition isJamoV :: "nat \<Rightarrow> bool" where
  "isJamoV c \<longleftrightarrow> 0x1161 \<le> c \<and> c \<le> 0x1175"

definition isJamoT :: "nat \<Rightarrow> bool" where
  "isJamoT c \<longleftrightarrow> 0x11A8 \<le> c \<and> c \<le> 0x11C2"

definition isSyllableLV :: "nat \<Rightarrow> bool" where
  "isSyllableLV c \<longleftrightarrow> 0xAC00 \<le> c \<and> c \<le> 0xD7A3 \<and> (c - 0xAC00) mod 28 = 0"

fun nfcHangul :: "ustring \<Rightarrow> ustring" where
  "nfcHangul (a # b # cs) =
     (if isJamoL a \<and> isJamoV b
      then nfcHangul ((0xAC00 + ((a - 0x1100) * 21 + (b - 0x1161)) * 28) # cs)
      else if isSyllableLV a \<and> isJamoT b then (a + (b - 0x11A7)) # nfcHangul cs
      else a # nfcHangul (b # cs))"
| "nfcHangul cs = cs"

text \<open>
  The shape \<open>sanitizeText\<close> leaves behind: every white space character is a single
  U+0020 followed by a character that is not white space.
\<close>

fun singleSpaced :: "ustring \<Rightarrow> bool" where
  "singleSpaced [] = True"
| "singleSpaced [c] = (isWhiteSpace c \<longrightarrow> c = 0x20)"
| "singleSpaced (c # d # cs) =
     ((isWhiteSpace c \<longrightarrow> c = 0x20 \<and> \<not> isWhiteSpace d) \<and> singleSpaced (d # cs))"

section \<open>normalizeCountry\<close>

text \<open>
  \<^verbatim>\<open>
  const COUNTRY_ISO_MAP: Record<string, string> = { ... };
  \<close>
  The table in the order of the source, keys and values as code units. The keys are
  Korean country names written in precomposed syllables; the values are two-letter codes,
  but for U+B514 U+CE74 U+D398 U+C778 (decaffeinated), whose value is the key in square
  brackets, and U+D0C4 U+C790 U+B2C8 U+C544 (Tanzania), whose value is "TN".
\<close>

definition COUNTRY_ISO_MAP :: "(ustring \<times> ustring) list" where
  "COUNTRY_ISO_MAP =
    [([0xBE0C, 0xB77C, 0xC9C8], ascii ''BR''),
     ([0xCF5C, 0xB86C, 0xBE44, 0xC544], ascii ''CO''),
     ([0xC5D0, 0xD2F0, 0xC624, 0xD53C, 0xC544], ascii ''ET''),
     ([0xACFC, 0xD14C, 0xB9D0, 0xB77C], ascii ''GT''),
     ([0xC778, 0xB3C4, 0xB124, 0xC2DC, 0xC544], ascii ''ID''),
     ([0xC778, 0xB3C4], ascii ''IN''),
     ([0xCF00, 0xB0D0], ascii ''KE''),
     ([0xC5D8, 0xC0B4, 0xBC14, 0xB3C4, 0xB974], ascii ''SV''),
     ([0xC628, 0xB450, 0xB77C, 0xC2A4], ascii ''HN''),
     ([0xC790, 0xBA54, 0xC774, 0xCE74], ascii ''JM''),
     ([0xD0C4, 0xC790, 0xB2C8, 0xC544], ascii ''TN''),
     ([0xB514, 0xCE74, 0xD398, 0xC778], [0x5B, 0xB514, 0xCE74, 0xD398, 0xC778, 0x5D]),
     ([0xBCA0, 0xD2B8, 0xB0A8], ascii ''VN''),
     ([0xCF54, 0xC2A4, 0xD0C0, 0xB9AC, 0xCE74], ascii ''CR''),
     ([0xB2C8, 0xCE74, 0xB77C, 0xACFC], ascii ''NI''),
     ([0xBA55, 0xC2DC, 0xCF54], ascii ''MX''),
     ([0xD398, 0xB8E8], ascii ''PE''),
     ([0xD30C, 0xD478, 0xC544, 0xB274, 0xAE30, 0xB2C8], ascii ''PG''),
     ([0xC608, 0xBA58], ascii ''YE''),
     ([0xB974, 0xC644, 0xB2E4], ascii ''RW''),
     ([0xC6B0, 0xAC04, 0xB2E4], ascii ''UG''),
     ([0xD30C, 0xB098, 0xB9C8], ascii ''PA''),
     ([0xD558, 0xC640, 0xC774], ascii ''US'')]"

text \<open>
  \<open>COUNTRY_ISO_MAP\<close> is an object literal, so \<open>COUNTRY_ISO_MAP[s]\<close> also finds what
  the object inherits from \<open>Object.prototype\<close>: functions, and for \<open>__proto__\<close> the
  prototype itself. None of them is a string and all of them are truthy. The type checker
  takes the result for a string (\<open>Record<string, string>\<close>); the model keeps the two
  apart.
\<close>

datatype strval = Str ustring | Inherited ustring

definition objectPrototypeNames :: "ustring list" where
  "objectPrototypeNames = map ascii
    [''constructor'', ''hasOwnProperty'', ''isPrototypeOf'', ''propertyIsEnumerable'',
     ''toLocaleString'', ''toString'', ''valueOf'', ''__proto__'', ''__defineGetter__'',
     ''__defineSetter__'', ''__lookupGetter__'', ''__lookupSetter__'']"

fun strTruthy :: "strval \<Rightarrow> bool" where
  "strTruthy (Str s) = (s \<noteq> [])"
| "strTruthy (Inherited k) = True"

definition lookupCountry :: "ustring \<Rightarrow> strval option" where
  "lookupCountry s =
     (case map_of COUNTRY_ISO_MAP s of
        Some v \<Rightarrow> Some (Str v)
      | None \<Rightarrow> if s \<in> set objectPrototypeNames then Some (Inherited s) else None)"

text \<open>
  \<open>s.split(/\s+/)\<close>: the pieces between the maximal runs of white space, an empty
  piece before a leading run and after a trailing one, and one empty piece for the empty
  string.
\<close>

function splitWs :: "ustring \<Rightarrow> ustring list" where
  "splitWs s =
     (case dropWhile (\<lambda>c. \<not> isWhiteSpace c) s of
        [] \<Rightarrow> [s]
      | c # r \<Rightarrow> takeWhile (\<lambda>c. \<not> isWhiteSpace c) s # splitWs (dropWhile isWhiteSpace r))"
  by pat_completeness auto
termination
proof (relation "measure length")
  fix s :: ustring and c r
  assume "dropWhile (\<lambda>c. \<not> isWhiteSpace c) s = c # r"
  then have "length (c # r) \<le> length s"
    by (metis length_dropWhile_le)
  moreover have "length (dropWhile isWhiteSpace r) \<le> length r"
    by (rule length_dropWhile_le)
  ultimately show "(dropWhile isWhiteSpace r, s) \<in> measure length"
    by simp
qed simp

declare splitWs.simps [simp del]

text \<open>
  \<^verbatim>\<open>
  function normalizeCountry(raw: string): string {
    let s = sanitizeText(raw);
    const tokens = s.split(/\s+/).filter(Boolean);
    if (tokens.length > 1 && tokens.every((t) => t.length === 1)) s = tokens.join("");
    if (COUNTRY_ISO_MAP[s]) s = COUNTRY_ISO_MAP[s];
    return s;
  }
  \<close>
\<close>

definition tokensOf :: "ustring \<Rightarrow> ustring list" where
  "tokensOf s = filter (\<lambda>t. t \<noteq> []) (splitWs s)"

definition rejoinLetters :: "ustring \<Rightarrow> ustring" where
  "rejoinLetters s =
     (let tokens = tokensOf s
      in if length tokens > 1 \<and> list_all (\<lambda>t. length t = 1) tokens then concat tokens else s)"

definition normalizeCountry :: "(ustring \<Rightarrow> ustring) \<Rightarrow> ustring \<Rightarrow> strval" where
  "normalizeCountry nfc raw =
     (let s = rejoinLetters (sanitizeText nfc (Some raw))
      in case lookupCountry s of
           Some v \<Rightarrow> if strTruthy v then v else Str s
         | None \<Rightarrow> Str s)"

text \<open>
  A name letter-spaced the way the repair rule expects: one U+0020 between every two
  code units.
\<close>

fun letterSpaced :: "ustring \<Rightarrow> ustring" where
  "letterSpaced [] = []"
| "letterSpaced [c] = [c]"
| "letterSpaced (c # d # cs) = c # 0x20 # letterSpaced (d # cs)"

section \<open>Numbers and the conversion of text to a number\<close>

text \<open>
  A number of the program is an IEEE 754 double: not a number, an infinity, or a finite
  value, which is a rational. The two zeros are one value here (both are falsy and
  neither is positive, which is all the source asks of them).
\<close>

datatype jsnum = NaN | PosInf | NegInf | Fin rat

fun negate :: "jsnum \<Rightarrow> jsnum" where
  "negate NaN = NaN"
| "negate PosInf = NegInf"
| "negate NegInf = PosInf"
| "negate (Fin q) = Fin (- q)"

definition pow2 :: "int \<Rightarrow> rat" where
  "pow2 e = (if 0 \<le> e then 2 ^ nat e else 1 / 2 ^ nat (- e))"

definition pow10 :: "int \<Rightarrow> rat" where
  "pow10 e = (if 0 \<le> e then 10 ^ nat e else 1 / 10 ^ nat (- e))"

function bitLength :: "int \<Rightarrow> int" where
  "bitLength n = (if n \<le> 0 then 0 else 1 + bitLength (n div 2))"
  by pat_completeness auto
termination
  by (relation "measure nat") auto

declare bitLength.simps [simp del]

definition roundHalfEven :: "rat \<Rightarrow> int" where
  "roundHalfEven m =
     (let f = \<lfloor>m\<rfloor>; d = m - of_int f
      in if d < 1 / 2 then f else if 1 / 2 < d then f + 1 else if even f then f else f + 1)"

text \<open>
  The double nearest to a mathematical value, ties to the even significand: the
  significand has 53 bits, the exponent of a normal number is at least -1022 (below it the
  spacing stays at \<open>2^-1074\<close>), and a value that rounds to \<open>2^1024\<close> or beyond is an
  infinity. \<open>binaryExponent a\<close> is the \<open>e\<close> with \<open>2^e \<le> a < 2^(e+1)\<close>, for a
  positive \<open>a\<close>: the bit lengths of numerator and denominator give it up to one.
\<close>

definition binaryExponent :: "rat \<Rightarrow> int" where
  "binaryExponent a =
     (let e0 = bitLength (fst (quotient_of a)) - bitLength (snd (quotient_of a))
      in if pow2 e0 \<le> a then e0 else e0 - 1)"

definition roundToDouble :: "rat \<Rightarrow> jsnum" where
  "roundToDouble q =
     (if q = 0 then Fin 0
      else
        let e = max (binaryExponent \<bar>q\<bar>) (- 1022);
            u = pow2 (e - 52);
            n = roundHalfEven (\<bar>q\<bar> / u)
        in if 1023 < e \<or> (e = 1023 \<and> 2 ^ 53 \<le> n) then (if 0 < q then PosInf else NegInf)
           else Fin (sgn q * of_int n * u))"

text \<open>
  \<open>Number(s)\<close> for a string: the grammar StringNumericLiteral of the language. White
  space is trimmed; the empty string is 0; a decimal literal has an optional sign, then
  \<open>Infinity\<close> or digits with an optional fraction and an optional exponent; a literal
  with the prefix \<open>0x\<close>, \<open>0o\<close> or \<open>0b\<close> has no sign; anything else is NaN.
\<close>

definition isDigit :: "nat \<Rightarrow> bool" where
  "isDigit c \<longleftrightarrow> 0x30 \<le> c \<and> c \<le> 0x39"

definition isHexDigit :: "nat \<Rightarrow> bool" where
  "isHexDigit c \<longleftrightarrow> isDigit c \<or> (0x61 \<le> c \<and> c \<le> 0x66) \<or> (0x41 \<le> c \<and> c \<le> 0x46)"

definition digitValue :: "nat \<Rightarrow> int" where
  "digitValue c =
     int (if isDigit c then c - 0x30 else if 0x61 \<le> c then c - 0x61 + 10 else c - 0x41 + 10)"

definition digitsValue :: "int \<Rightarrow> ustring \<Rightarrow> int" where
  "digitsValue base ds = foldl (\<lambda>a c. base * a + digitValue c) 0 ds"

definition exponentPart :: "ustring \<Rightarrow> int option" where
  "exponentPart s =
     (case s of
        [] \<Rightarrow> Some 0
      | c # r \<Rightarrow>
          if c = 0x65 \<or> c = 0x45 then
            (let neg = (r \<noteq> [] \<and> hd r = 0x2D);
                 ds = (if r \<noteq> [] \<and> (hd r = 0x2B \<or> hd r = 0x2D) then tl r else r)
             in if ds \<noteq> [] \<and> list_all isDigit ds
                then Some (if neg then - digitsValue 10 ds else digitsValue 10 ds)
                else None)
          else None)"

definition strUnsignedDecimalLiteral :: "ustring \<Rightarrow> jsnum option" where
  "strUnsignedDecimalLiteral s =
     (if s = ascii ''Infinity'' then Some PosInf
      else
        let ip = takeWhile isDigit s;
            r1 = dropWhile isDigit s;
            dot = (r1 \<noteq> [] \<and> hd r1 = 0x2E);
            fp = (if dot then takeWhile isDigit (tl r1) else []);
            r2 = (if dot then dropWhile isDigit (tl r1) else r1)
        in if ip = [] \<and> fp = [] then None
           else case exponentPart r2 of
                  None \<Rightarrow> None
                | Some e \<Rightarrow>
                    Some (roundToDouble
                      (of_int (digitsValue 10 (ip @ fp)) * pow10 (e - int (length fp)))))"

definition strDecimalLiteral :: "ustring \<Rightarrow> jsnum option" where
  "strDecimalLiteral s =
     (case s of
        [] \<Rightarrow> None
      | c # r \<Rightarrow>
          if c = 0x2B then strUnsignedDecimalLiteral r
          else if c = 0x2D then map_option negate (strUnsignedDecimalLiteral r)
          else strUnsignedDecimalLiteral s)"

definition nonDecimalIntegerLiteral :: "ustring \<Rightarrow> jsnum option" where
  "nonDecimalIntegerLiteral s =
     (case s of
        a # b # ds \<Rightarrow>
          if a = 0x30 \<and> ds \<noteq> [] then
            (if (b = 0x78 \<or> b = 0x58) \<and> list_all isHexDigit ds
               then Some (roundToDouble (of_int (digitsValue 16 ds)))
             else if (b = 0x6F \<or> b = 0x4F) \<and> list_all (\<lambda>c. 0x30 \<le> c \<and> c \<le> 0x37) ds
               then Some (roundToDouble (of_int (digitsValue 8 ds)))
             else if (b = 0x62 \<or> b = 0x42) \<and> list_all (\<lambda>c. c = 0x30 \<or> c = 0x31) ds
               then Some (roundToDouble (of_int (digitsValue 2 ds)))
             else None)
          else None
      | _ \<Rightarrow> None)"

definition jsNumber :: "ustring \<Rightarrow> jsnum" where
  "jsNumber s =
     (let t = trim s
      in if t = [] then Fin 0
         else case strDecimalLiteral t of
                Some v \<Rightarrow> v
              | None \<Rightarrow> (case nonDecimalIntegerLiteral t of Some v \<Rightarrow> v | None \<Rightarrow> NaN))"

text \<open>\<open>Number.isFinite(x) && x > 0\<close>\<close>

fun finitePositive :: "jsnum \<Rightarrow> bool" where
  "finitePositive (Fin q) = (0 < q)"
| "finitePositive _ = False"

section \<open>The workbook scan\<close>

text \<open>
  \<^verbatim>\<open>
  type PriceItem = { country: string; name: string; price: number; priceGroup: string };
  const MAX_ROWS_SAFE = 20000;
  const ALLOWED_SHEETS = new Set(["(1)", "(2)", "(3)", "(4)"]);
  \<close>
  The field \<open>country\<close> holds what \<open>normalizeCountry\<close> returned, so it has that
  function's result type.
\<close>

record PriceItem =
  country :: strval
  name :: ustring
  price :: jsnum
  priceGroup :: ustring

definition MAX_ROWS_SAFE :: nat where
  "MAX_ROWS_SAFE = 20000"

definition ALLOWED_SHEETS :: "ustring list" where
  "ALLOWED_SHEETS = [ascii ''(1)'', ascii ''(2)'', ascii ''(3)'', ascii ''(4)'']"

text \<open>
  A cell of a decoded sheet (\<open>sheet_to_json\<close> with \<open>header: 1, defval: ""\<close>) is a
  string, a number or a boolean; an empty cell is the empty string. A sheet is a list of
  rows, a row a list of cells. \<open>wb.SheetNames\<close> gives the order of the sheets and
  \<open>wb.Sheets\<close> their contents; a name without contents decodes to no rows.
\<close>

datatype cell = CStr ustring | CNum jsnum | CBool bool

type_synonym row = "cell list"

record Workbook =
  SheetNames :: "ustring list"
  Sheets :: "ustring \<Rightarrow> row list option"

definition rowsOf :: "Workbook \<Rightarrow> ustring \<Rightarrow> row list" where
  "rowsOf wb sheet = (case Sheets wb sheet of None \<Rightarrow> [] | Some rows \<Rightarrow> rows)"

text \<open>\<open>item[i]\<close>: the cell, or \<open>undefined\<close> (\<open>None\<close>) past the end of the row.\<close>

definition cellAt :: "row \<Rightarrow> nat \<Rightarrow> cell option" where
  "cellAt item i = (if i < length item then Some (item ! i) else None)"

text \<open>
  \<open>String(v)\<close>. The text of a number is the language's \<open>Number::toString\<close>, the
  parameter \<open>numToString\<close>.
\<close>

fun jsString :: "(jsnum \<Rightarrow> ustring) \<Rightarrow> cell option \<Rightarrow> ustring" where
  "jsString numToString None = ascii ''undefined''"
| "jsString numToString (Some (CStr s)) = s"
| "jsString numToString (Some (CNum n)) = numToString n"
| "jsString numToString (Some (CBool b)) = (if b then ascii ''true'' else ascii ''false'')"

text \<open>Truthiness, as \<open>!priceRaw\<close> tests it.\<close>

fun truthy :: "cell option \<Rightarrow> bool" where
  "truthy None = False"
| "truthy (Some (CStr s)) = (s \<noteq> [])"
| "truthy (Some (CNum n)) = (n \<noteq> NaN \<and> n \<noteq> Fin 0)"
| "truthy (Some (CBool b)) = b"

text \<open>
  The header test: \<open>typeof c === "string" && /(...|...)/.test(c)\<close>, a search for
  either of two words anywhere in the cell. The name labels are U+D488 U+BA85 and
  U+C81C U+D488 U+BA85; the price labels are U+B2E8 U+AC00 and U+AC00 U+ACA9.
\<close>

fun contains :: "ustring \<Rightarrow> ustring \<Rightarrow> bool" where
  "contains pat [] = (pat = [])"
| "contains pat (c # cs) = (prefix pat (c # cs) \<or> contains pat cs)"

fun isNameLabel :: "cell \<Rightarrow> bool" where
  "isNameLabel (CStr s) = (contains [0xD488, 0xBA85] s \<or> contains [0xC81C, 0xD488, 0xBA85] s)"
| "isNameLabel _ = False"

fun isPriceLabel :: "cell \<Rightarrow> bool" where
  "isPriceLabel (CStr s) = (contains [0xB2E8, 0xAC00] s \<or> contains [0xAC00, 0xACA9] s)"
| "isPriceLabel _ = False"

text \<open>\<open>row.findIndex(p)\<close>, with \<open>None\<close> for -1.\<close>

fun findIndex :: "('a \<Rightarrow> bool) \<Rightarrow> 'a list \<Rightarrow> nat option" where
  "findIndex p [] = None"
| "findIndex p (x # xs) = (if p x then Some 0 else map_option Suc (findIndex p xs))"

definition countryIdx :: nat where
  "countryIdx = 1"

text \<open>
  The body of the inner loop, for one data row \<open>item\<close>:
  \<^verbatim>\<open>
  const rawCountry = item[countryIdx];
  const name = sanitizeText(String(item[nameIdx] ?? ""));
  const priceRaw = item[priceIdx];
  const maybe = typeof rawCountry === "string" ? normalizeCountry(rawCountry) : "";
  if (maybe) currentCountry = maybe;
  if (!name || !priceRaw || !currentCountry) continue;
  const priceNum = Number(String(priceRaw).replace(/[\s,W]/g, ""));
  if (Number.isFinite(priceNum) && priceNum > 0) {
    collected.push({ country: currentCountry, name, price: priceNum, priceGroup: sheet });
  }
  \<close>
  (where \<open>W\<close> stands for the two currency characters U+C6D0 and U+20A9).
  \<open>rowCountry\<close> is \<open>currentCountry\<close> after the assignment, \<open>rowItem\<close> what the row
  pushes with it.
\<close>

definition maybeCountry :: "(ustring \<Rightarrow> ustring) \<Rightarrow> row \<Rightarrow> strval" where
  "maybeCountry nfc item =
     (case cellAt item countryIdx of Some (CStr s) \<Rightarrow> normalizeCountry nfc s | _ \<Rightarrow> Str [])"

definition rowCountry :: "(ustring \<Rightarrow> ustring) \<Rightarrow> strval \<Rightarrow> row \<Rightarrow> strval" where
  "rowCountry nfc currentCountry item =
     (let maybe = maybeCountry nfc item in if strTruthy maybe then maybe else currentCountry)"

definition rowName :: "(ustring \<Rightarrow> ustring) \<Rightarrow> (jsnum \<Rightarrow> ustring) \<Rightarrow> nat \<Rightarrow> row \<Rightarrow> ustring" where
  "rowName nfc numToString nameIdx item =
     sanitizeText nfc (Some (jsString numToString
       (case cellAt item nameIdx of None \<Rightarrow> Some (CStr []) | Some c \<Rightarrow> Some c)))"

definition stripCurrency :: "ustring \<Rightarrow> ustring" where
  "stripCurrency s =
     filter (\<lambda>c. \<not> (isWhiteSpace c \<or> c = 0x2C \<or> c = 0xC6D0 \<or> c = 0x20A9)) s"

definition parsePrice :: "(jsnum \<Rightarrow> ustring) \<Rightarrow> cell option \<Rightarrow> jsnum" where
  "parsePrice numToString priceRaw = jsNumber (stripCurrency (jsString numToString priceRaw))"

definition rowItem ::
  "(ustring \<Rightarrow> ustring) \<Rightarrow> (jsnum \<Rightarrow> ustring) \<Rightarrow> ustring \<Rightarrow> nat \<Rightarrow> nat \<Rightarrow> strval \<Rightarrow> row
     \<Rightarrow> PriceItem option" where
  "rowItem nfc numToString sheet nameIdx priceIdx currentCountry item =
     (let itemName = rowName nfc numToString nameIdx item;
          priceRaw = cellAt item priceIdx
      in if itemName = [] \<or> \<not> truthy priceRaw \<or> \<not> strTruthy currentCountry then None
         else
           let priceNum = parsePrice numToString priceRaw
           in if finitePositive priceNum
              then Some \<lparr>country = currentCountry, name = itemName, price = priceNum,
                         priceGroup = sheet\<rparr>
              else None)"

text \<open>The inner loop \<open>for (let j = i + 1; j < rows.length; j++)\<close>, over the rows below a header.\<close>

fun walkRows ::
  "(ustring \<Rightarrow> ustring) \<Rightarrow> (jsnum \<Rightarrow> ustring) \<Rightarrow> ustring \<Rightarrow> nat \<Rightarrow> nat \<Rightarrow> strval \<Rightarrow> row list
     \<Rightarrow> PriceItem list" where
  "walkRows nfc numToString sheet nameIdx priceIdx currentCountry [] = []"
| "walkRows nfc numToString sheet nameIdx priceIdx currentCountry (item # rest) =
     (let currentCountry' = rowCountry nfc currentCountry item
      in (case rowItem nfc numToString sheet nameIdx priceIdx currentCountry' item of
            None \<Rightarrow> []
          | Some it \<Rightarrow> [it])
         @ walkRows nfc numToString sheet nameIdx priceIdx currentCountry' rest)"

text \<open>
  The outer loop \<open>for (let i = 0; i < rows.length; i++)\<close>, on the rows from \<open>i\<close> on.
  A row with a name label is a header candidate; it starts a walk when it also has a price
  label, with \<open>let currentCountry = ""\<close>. After the walk the outer loop goes on with the
  next row.
\<close>

fun scanRows ::
  "(ustring \<Rightarrow> ustring) \<Rightarrow> (jsnum \<Rightarrow> ustring) \<Rightarrow> ustring \<Rightarrow> row list \<Rightarrow> PriceItem list" where
  "scanRows nfc numToString sheet [] = []"
| "scanRows nfc numToString sheet (r # rest) =
     (if list_ex isNameLabel r then
        (case (findIndex isNameLabel r, findIndex isPriceLabel r) of
           (Some nameIdx, Some priceIdx) \<Rightarrow>
             walkRows nfc numToString sheet nameIdx priceIdx (Str []) rest
             @ scanRows nfc numToString sheet rest
         | _ \<Rightarrow> scanRows nfc numToString sheet rest)
      else scanRows nfc numToString sheet rest)"

text \<open>
  The loop over \<open>wb.SheetNames\<close> and the checks around it: the three \<open>throw\<close>
  statements of the scan are the three errors.
\<close>

datatype scan_error = EmptyWorkbook | SheetTooLarge nat | NoValidItems

fun scanSheets ::
  "(ustring \<Rightarrow> ustring) \<Rightarrow> (jsnum \<Rightarrow> ustring) \<Rightarrow> Workbook \<Rightarrow> ustring list
     \<Rightarrow> scan_error + PriceItem list" where
  "scanSheets nfc numToString wb [] = Inr []"
| "scanSheets nfc numToString wb (sheet # others) =
     (if sheet \<notin> set ALLOWED_SHEETS then scanSheets nfc numToString wb others
      else
        let rows = rowsOf wb sheet
        in if length rows > MAX_ROWS_SAFE then Inl (SheetTooLarge (length rows))
           else case scanSheets nfc numToString wb others of
                  Inl e \<Rightarrow> Inl e
                | Inr items \<Rightarrow> Inr (scanRows nfc numToString sheet rows @ items))"

definition scan ::
  "(ustring \<Rightarrow> ustring) \<Rightarrow> (jsnum \<Rightarrow> ustring) \<Rightarrow> Workbook \<Rightarrow> scan_error + PriceItem list" where
  "scan nfc numToString wb =
     (if SheetNames wb = [] then Inl EmptyWorkbook
      else case scanSheets nfc numToString wb (SheetNames wb) of
             Inl e \<Rightarrow> Inl e
           | Inr items \<Rightarrow> if items = [] then Inl NoValidItems else Inr items)"

section \<open>What the claims speak of\<close>

text \<open>\<open>currentCountry\<close> after the inner loop has gone over the rows \<open>rows\<close>.\<close>

definition countryAfter :: "(ustring \<Rightarrow> ustring) \<Rightarrow> strval \<Rightarrow> row list \<Rightarrow> strval" where
  "countryAfter nfc currentCountry rows = foldl (rowCountry nfc) currentCountry rows"

text \<open>A row that starts a walk: it has a name label and a price label.\<close>

definition isValidHeader :: "row \<Rightarrow> bool" where
  "isValidHeader r \<longleftrightarrow> list_ex isNameLabel r \<and> list_ex isPriceLabel r"

text \<open>A permitted sheet over the ceiling: the test before the \<open>throw\<close> of the size guard.\<close>

definition oversized :: "Workbook \<Rightarrow> ustring \<Rightarrow> bool" where
  "oversized wb sheet \<longleftrightarrow> sheet \<in> set ALLOWED_SHEETS \<and> MAX_ROWS_SAFE < length (rowsOf wb sheet)"

text \<open>
  The scan as the specification words it (sections 4.2 and 9): in each permitted sheet,
  in the order of the sheets, the first valid header is found, the rows below it are
  folded over with the current country as the accumulator, every valid row adds one item
  behind the ones before it, and the items of the sheets are concatenated.
\<close>

definition specWalk ::
  "(ustring \<Rightarrow> ustring) \<Rightarrow> (jsnum \<Rightarrow> ustring) \<Rightarrow> ustring \<Rightarrow> nat \<Rightarrow> nat \<Rightarrow> row list
     \<Rightarrow> PriceItem list" where
  "specWalk nfc numToString sheet nameIdx priceIdx rows =
     snd (foldl
       (\<lambda>(cur, acc) item.
          let cur' = rowCountry nfc cur item
          in (cur', acc @ (case rowItem nfc numToString sheet nameIdx priceIdx cur' item of
                             None \<Rightarrow> []
                           | Some it \<Rightarrow> [it])))
       (Str [], []) rows)"

definition specSheetItems ::
  "(ustring \<Rightarrow> ustring) \<Rightarrow> (jsnum \<Rightarrow> ustring) \<Rightarrow> ustring \<Rightarrow> row list \<Rightarrow> PriceItem list" where
  "specSheetItems nfc numToString sheet rows =
     (case dropWhile (\<lambda>r. \<not> isValidHeader r) rows of
        [] \<Rightarrow> []
      | h # below \<Rightarrow>
          (case (findIndex isNameLabel h, findIndex isPriceLabel h) of
             (Some nameIdx, Some priceIdx) \<Rightarrow> specWalk nfc numToString sheet nameIdx priceIdx below
           | _ \<Rightarrow> []))"

definition specItems ::
  "(ustring \<Rightarrow> ustring) \<Rightarrow> (jsnum \<Rightarrow> ustring) \<Rightarrow> Workbook \<Rightarrow> PriceItem list" where
  "specItems nfc numToString wb =
     concat (map (\<lambda>sheet. specSheetItems nfc numToString sheet (rowsOf wb sheet))
       (filter (\<lambda>sheet. sheet \<in> set ALLOWED_SHEETS) (SheetNames wb)))"

section \<open>Instances and inputs of the closed examples\<close>

text \<open>
  \<open>String(x)\<close> for a number \<open>x\<close> that is NaN, an infinity or an integer of magnitude
  up to \<open>2^53\<close>: its decimal digits. (The text of any other finite number, the shortest
  digits that read back as \<open>x\<close>, is not computed here.) It instantiates
  \<open>numToString\<close> in the closed examples, whose number cells are such integers.
\<close>

function digitsOf :: "int \<Rightarrow> ustring" where
  "digitsOf n =
     (if n < 10 then [nat (0x30 + n)] else digitsOf (n div 10) @ [nat (0x30 + n mod 10)])"
  by pat_completeness auto
termination
  by (relation "measure nat") auto

declare digitsOf.simps [simp del]

fun printInteger :: "jsnum \<Rightarrow> ustring" where
  "printInteger NaN = ascii ''NaN''"
| "printInteger PosInf = ascii ''Infinity''"
| "printInteger NegInf = ascii ''-Infinity''"
| "printInteger (Fin q) = (if q < 0 then 0x2D # digitsOf \<lfloor>- q\<rfloor> else digitsOf \<lfloor>q\<rfloor>)"

text \<open>The country name U+BE0C U+B77C U+C9C8 (Brazil), whose code is BR.\<close>

definition brazil :: ustring where
  "brazil = [0xBE0C, 0xB77C, 0xC9C8]"

text \<open>
  A header row: an empty cell, the label U+B098 U+B77C (country) in column B, the name
  label U+D488 U+BA85 in column C and the price label U+B2E8 U+AC00 in column D.
\<close>

definition headerBCD :: row where
  "headerBCD = [CStr [], CStr [0xB098, 0xB77C], CStr [0xD488, 0xBA85], CStr [0xB2E8, 0xAC00]]"

definition sheet1 :: ustring where
  "sheet1 = ascii ''(1)''"

text \<open>
  Sheet "(1)" with the header, a row of Brazil and two rows that leave the country cell
  empty.
\<close>

definition wbSticky :: Workbook where
  "wbSticky =
     \<lparr>SheetNames = [sheet1],
      Sheets = [sheet1 \<mapsto>
        [headerBCD,
         [CStr [], CStr brazil, CStr (ascii ''Santos''), CNum (Fin 12000)],
         [CStr [], CStr [], CStr (ascii ''Cerrado''), CStr (ascii ''13,500'' @ [0xC6D0])],
         [CStr [], CStr [], CStr (ascii ''Mogiana''), CStr (0x20A9 # ascii ''14000'')]]]\<rparr>"

text \<open>
  Sheet "(1)" with two header sections: the second has its name and price columns two
  places to the right and no country cell of its own.
\<close>

definition wbTwoSections :: Workbook where
  "wbTwoSections =
     \<lparr>SheetNames = [sheet1],
      Sheets = [sheet1 \<mapsto>
        [[CStr [], CStr [], CStr [0xD488, 0xBA85], CStr [0xB2E8, 0xAC00]],
         [CStr [], CStr brazil, CStr (ascii ''A''), CNum (Fin 100)],
         [CStr [], CStr [], CStr [], CStr [], CStr [0xD488, 0xBA85], CStr [0xB2E8, 0xAC00]],
         [CStr [], CStr [], CStr [], CStr [], CStr (ascii ''B''), CNum (Fin 200)]]]\<rparr>"

text \<open>Sheet "(1)" with a row whose country cell reads \<open>constructor\<close>.\<close>

definition wbConstructor :: Workbook where
  "wbConstructor =
     \<lparr>SheetNames = [sheet1],
      Sheets = [sheet1 \<mapsto>
        [headerBCD,
         [CStr [], CStr (ascii ''constructor''), CStr (ascii ''A''), CNum (Fin 100)]]]\<rparr>"

text \<open>
  Sheet "(1)" with one header cell that holds both labels (name and price column are
  column A), a row with a country, and a row of one cell only.
\<close>

definition wbShortRow :: Workbook where
  "wbShortRow =
     \<lparr>SheetNames = [sheet1],
      Sheets = [sheet1 \<mapsto>
        [[CStr ([0xD488, 0xBA85] @ ascii ''/'' @ [0xB2E8, 0xAC00])],
         [CStr (ascii ''100''), CStr brazil],
         [CStr (ascii ''200'')]]]\<rparr>"

text \<open>
  Sheet "(1)" with a header and a valid row, and sheet "(2)" with 20001 empty rows.
\<close>

definition wbOversized :: Workbook where
  "wbOversized =
     \<lparr>SheetNames = [sheet1, ascii ''(2)''],
      Sheets = [sheet1 \<mapsto>
                  [headerBCD, [CStr [], CStr brazil, CStr (ascii ''Santos''), CNum (Fin 12000)]],
                ascii ''(2)'' \<mapsto> replicate 20001 []]\<rparr>"

text \<open>
  Sheet "(1)" with two header sections in the same columns; neither header row has a text
  in column B, and the row of the second section has no country cell of its own.
\<close>

definition wbCarry :: Workbook where
  "wbCarry =
     \<lparr>SheetNames = [sheet1],
      Sheets = [sheet1 \<mapsto>
        [[CStr [], CStr [], CStr [0xD488, 0xBA85], CStr [0xB2E8, 0xAC00]],
         [CStr [], CStr brazil, CStr (ascii ''A''), CNum (Fin 100)],
         [CStr [], CStr [], CStr [0xD488, 0xBA85], CStr [0xB2E8, 0xAC00]],
         [CStr [], CStr [], CStr (ascii ''B''), CNum (Fin 200)]]]\<rparr>"

text \<open>
  Sheet "(1)" with two header sections in the same columns, each with a row that has a
  country cell of its own.
\<close>

definition wbTwoHeaders :: Workbook where
  "wbTwoHeaders =
     \<lparr>SheetNames = [sheet1],
      Sheets = [sheet1 \<mapsto>
        [[CStr [], CStr [], CStr [0xD488, 0xBA85], CStr [0xB2E8, 0xAC00]],
         [CStr [], CStr brazil, CStr (ascii ''A''), CNum (Fin 100)],
         [CStr [], CStr [], CStr [0xD488, 0xBA85], CStr [0xB2E8, 0xAC00]],
         [CStr [], CStr brazil, CStr (ascii ''C''), CNum (Fin 300)]]]\<rparr>"

section \<open>Facts about the text functions\<close>

lemmas text_eval = sanitizeText_def cleanText_def replaceBySpace_def isZeroWidth_def
  isWhiteSpace_def trim_def trimStart_def trimEnd_def isJamoL_def isJamoV_def isJamoT_def
  isSyllableLV_def ascii_def

lemmas country_eval = normalizeCountry_def rejoinLetters_def tokensOf_def splitWs.simps
  lookupCountry_def COUNTRY_ISO_MAP_def objectPrototypeNames_def

lemma isWhiteSpace_space: "isWhiteSpace 0x20"
  by (simp add: isWhiteSpace_def)

lemma collapseWs_notws_hd:
  "s = [] \<or> \<not> isWhiteSpace (hd s) \<Longrightarrow>
     collapseWs s = [] \<or> \<not> isWhiteSpace (hd (collapseWs s))"
  by (cases s) (auto split: if_splits)

lemma singleSpaced_collapseWs: "singleSpaced (collapseWs s)"
proof (induction s rule: collapseWs.induct)
  case 1
  then show ?case by simp
next
  case (2 c cs)
  show ?case
  proof (cases "isWhiteSpace c")
    case True
    let ?r = "dropWhile isWhiteSpace cs"
    have h: "?r = [] \<or> \<not> isWhiteSpace (hd ?r)"
      by (metis hd_dropWhile)
    from collapseWs_notws_hd[OF h] 2(1)[OF True] True show ?thesis
      by (cases "collapseWs ?r") (auto simp: isWhiteSpace_space)
  next
    case False
    with 2(2) show ?thesis by (cases "collapseWs cs") auto
  qed
qed

lemma collapseWs_fix: "singleSpaced s \<Longrightarrow> collapseWs s = s"
  by (induction s rule: singleSpaced.induct) (auto simp: isWhiteSpace_space)

lemma singleSpaced_append: "singleSpaced (xs @ ys) \<Longrightarrow> singleSpaced xs"
proof (induction xs rule: singleSpaced.induct)
  case 1
  then show ?case by simp
next
  case (2 c)
  then show ?case by (cases ys) auto
next
  case (3 c d cs)
  then show ?case by auto
qed

lemma singleSpaced_Cons: "singleSpaced (x # xs) \<Longrightarrow> singleSpaced xs"
  by (cases xs) auto

lemma singleSpaced_dropWhile: "singleSpaced xs \<Longrightarrow> singleSpaced (dropWhile P xs)"
  by (induction xs) (auto dest: singleSpaced_Cons)

lemma trimEnd_prefix: "\<exists>zs. s = trimEnd s @ zs"
  unfolding trimEnd_def
  by (metis rev_append rev_rev_ident takeWhile_dropWhile_id)

lemma singleSpaced_trim: "singleSpaced s \<Longrightarrow> singleSpaced (trim s)"
  unfolding trim_def trimStart_def
  by (metis singleSpaced_append singleSpaced_dropWhile trimEnd_prefix)

lemma set_collapseWs:
  "c \<in> set (collapseWs s) \<Longrightarrow> c = 0x20 \<or> (c \<in> set s \<and> \<not> isWhiteSpace c)"
proof (induction s rule: collapseWs.induct)
  case 1
  then show ?case by simp
next
  case (2 d cs)
  then show ?case
    by (auto split: if_splits dest: set_dropWhileD)
qed

lemma set_trim: "c \<in> set (trim s) \<Longrightarrow> c \<in> set s"
  unfolding trim_def trimStart_def trimEnd_def
  by (metis set_dropWhileD set_rev)

lemma dropWhile_id_hd: "s = [] \<or> \<not> P (hd s) \<Longrightarrow> dropWhile P s = s"
  by (cases s) auto

lemma trimEnd_ends:
  assumes "w = [] \<or> \<not> isWhiteSpace (hd w)"
  shows "trimEnd w = [] \<or>
    (\<not> isWhiteSpace (hd (trimEnd w)) \<and> \<not> isWhiteSpace (last (trimEnd w)))"
proof (cases "trimEnd w = []")
  case True
  then show ?thesis by simp
next
  case False
  obtain zs where zs: "w = trimEnd w @ zs" using trimEnd_prefix by blast
  from False zs have "hd (trimEnd w) = hd w" by (metis hd_append2)
  moreover from False zs have "w \<noteq> []" by auto
  ultimately have a: "\<not> isWhiteSpace (hd (trimEnd w))" using assms by simp
  from False have ne: "dropWhile isWhiteSpace (rev w) \<noteq> []" by (simp add: trimEnd_def)
  have "last (trimEnd w) = hd (dropWhile isWhiteSpace (rev w))"
    using ne by (simp add: trimEnd_def last_rev)
  with hd_dropWhile[OF ne] have b: "\<not> isWhiteSpace (last (trimEnd w))" by simp
  from a b show ?thesis by simp
qed

lemma trim_ends:
  "trim s = [] \<or> (\<not> isWhiteSpace (hd (trim s)) \<and> \<not> isWhiteSpace (last (trim s)))"
  unfolding trim_def trimStart_def
  by (rule trimEnd_ends) (metis hd_dropWhile)

lemma trim_fix:
  assumes "s = [] \<or> (\<not> isWhiteSpace (hd s) \<and> \<not> isWhiteSpace (last s))"
  shows "trim s = s"
proof (cases "s = []")
  case True
  then show ?thesis by (simp add: trim_def trimStart_def trimEnd_def)
next
  case False
  with assms have h: "\<not> isWhiteSpace (hd s)" and l: "\<not> isWhiteSpace (last s)" by auto
  from False h have 1: "dropWhile isWhiteSpace s = s" by (simp add: dropWhile_id_hd)
  from False l have "\<not> isWhiteSpace (hd (rev s))" by (simp add: hd_rev)
  then have 2: "dropWhile isWhiteSpace (rev s) = rev s" by (simp add: dropWhile_id_hd)
  show ?thesis by (simp add: trim_def trimStart_def trimEnd_def 1 2)
qed

lemma cleanText_chars:
  assumes "c \<in> set (cleanText z)"
  shows "c = 0x20 \<or> (\<not> isWhiteSpace c \<and> \<not> isZeroWidth c)"
proof -
  from assms have "c \<in> set (collapseWs (replaceBySpace (\<lambda>c. c = 0x0D \<or> c = 0x09)
       (filter (\<lambda>c. \<not> isZeroWidth c) (replaceBySpace (\<lambda>c. c = 0xA0) z))))"
    unfolding cleanText_def by (rule set_trim)
  from set_collapseWs[OF this] show ?thesis
    by (auto simp: replaceBySpace_def isZeroWidth_def split: if_splits)
qed

lemma cleanText_fix:
  assumes ch: "\<And>c. c \<in> set y \<Longrightarrow> c = 0x20 \<or> (\<not> isWhiteSpace c \<and> \<not> isZeroWidth c)"
    and sp: "singleSpaced y"
    and ends: "y = [] \<or> (\<not> isWhiteSpace (hd y) \<and> \<not> isWhiteSpace (last y))"
  shows "cleanText y = y"
proof -
  have n: "c \<noteq> 0xA0 \<and> c \<noteq> 0x0D \<and> c \<noteq> 0x09 \<and> \<not> isZeroWidth c" if "c \<in> set y" for c
    using ch[OF that] by (auto simp: isWhiteSpace_def isZeroWidth_def)
  have 1: "replaceBySpace (\<lambda>c. c = 0xA0) y = y"
    unfolding replaceBySpace_def using n by (intro map_idI) simp
  have 2: "filter (\<lambda>c. \<not> isZeroWidth c) y = y"
    using n by (intro filter_True) simp
  have 3: "replaceBySpace (\<lambda>c. c = 0x0D \<or> c = 0x09) y = y"
    unfolding replaceBySpace_def using n by (intro map_idI) simp
  show ?thesis
    by (simp add: cleanText_def 1 2 3 collapseWs_fix[OF sp] trim_fix[OF ends])
qed

lemma cleanText_ends:
  "cleanText z = [] \<or>
     (\<not> isWhiteSpace (hd (cleanText z)) \<and> \<not> isWhiteSpace (last (cleanText z)))"
  unfolding cleanText_def by (rule trim_ends)

lemma cleanText_idem: "cleanText (cleanText z) = cleanText z"
proof (rule cleanText_fix)
  show "singleSpaced (cleanText z)"
    unfolding cleanText_def by (rule singleSpaced_trim) (rule singleSpaced_collapseWs)
  show "cleanText z = [] \<or>
    (\<not> isWhiteSpace (hd (cleanText z)) \<and> \<not> isWhiteSpace (last (cleanText z)))"
    by (rule cleanText_ends)
qed (rule cleanText_chars)

section \<open>sanitizeText: what it guarantees (claim C5)\<close>

text \<open>
  Claim C5, as it stands, fails: \<open>sanitizeText\<close> is not idempotent. Normalization
  comes before the zero-width characters are stripped, so two characters that a zero-width
  joiner kept apart are adjacent in the result and compose on the second pass. The jamo
  U+1100 and U+1161 around U+200D come out as U+1100 U+1161; sanitized again they are the
  syllable U+AC00.
\<close>

theorem sanitizeText_not_idempotent:
  "sanitizeText nfcHangul (Some (sanitizeText nfcHangul (Some [0x1100, 0x200D, 0x1161])))
     \<noteq> sanitizeText nfcHangul (Some [0x1100, 0x200D, 0x1161])"
  by (simp add: text_eval)

text \<open>
  Claim C5, amended: \<open>sanitizeText\<close> is total and takes a missing input for the empty
  string; its result has no non-breaking space, no zero-width character, no tab and no
  carriage return, and neither starts nor ends with white space; and sanitizing the
  result again changes nothing whenever the result is already in normal form (NFC leaves
  it as it is), for every normalization function.
\<close>

theorem sanitizeText_guarantees:
  "sanitizeText nfc None = sanitizeText nfc (Some [])
   \<and> (nfc (sanitizeText nfc x) = sanitizeText nfc x \<longrightarrow>
        sanitizeText nfc (Some (sanitizeText nfc x)) = sanitizeText nfc x)
   \<and> (\<forall>c \<in> set (sanitizeText nfc x).
        c \<noteq> 0xA0 \<and> \<not> isZeroWidth c \<and> c \<noteq> 0x09 \<and> c \<noteq> 0x0D)
   \<and> (sanitizeText nfc x \<noteq> [] \<longrightarrow>
        \<not> isWhiteSpace (hd (sanitizeText nfc x)) \<and> \<not> isWhiteSpace (last (sanitizeText nfc x)))"
proof -
  have a: "sanitizeText nfc None = sanitizeText nfc (Some [])"
    by (simp add: sanitizeText_def)
  have b: "sanitizeText nfc (Some (sanitizeText nfc x)) = sanitizeText nfc x"
    if "nfc (sanitizeText nfc x) = sanitizeText nfc x"
  proof -
    have "sanitizeText nfc (Some (sanitizeText nfc x)) = cleanText (sanitizeText nfc x)"
      using that by (simp add: sanitizeText_def)
    also have "\<dots> = sanitizeText nfc x"
      unfolding sanitizeText_def by (rule cleanText_idem)
    finally show ?thesis .
  qed
  have c: "c \<noteq> 0xA0 \<and> \<not> isZeroWidth c \<and> c \<noteq> 0x09 \<and> c \<noteq> 0x0D"
    if "c \<in> set (sanitizeText nfc x)" for c
    using cleanText_chars[OF that[unfolded sanitizeText_def]]
    by (auto simp: isWhiteSpace_def isZeroWidth_def)
  have d: "\<not> isWhiteSpace (hd (sanitizeText nfc x)) \<and> \<not> isWhiteSpace (last (sanitizeText nfc x))"
    if "sanitizeText nfc x \<noteq> []"
    using cleanText_ends that unfolding sanitizeText_def by blast
  from a b c d show ?thesis by blast
qed

text \<open>
  The guarantees at work: a name in precomposed syllables between a tab, a non-breaking
  space, several spaces and a zero-width space.
\<close>

theorem sanitizeText_guarantees_witness:
  "sanitizeText nfcHangul (Some ([0x09, 0xA0] @ brazil @ [0x20, 0x20, 0x200B, 0x0D] @ ascii ''Santos '')) =
     brazil @ 0x20 # ascii ''Santos''
   \<and> nfcHangul (brazil @ 0x20 # ascii ''Santos'') = brazil @ 0x20 # ascii ''Santos''
   \<and> sanitizeText nfcHangul (Some (brazil @ 0x20 # ascii ''Santos'')) =
       brazil @ 0x20 # ascii ''Santos''
   \<and> sanitizeText nfcHangul None = []"
proof -
  let ?x = "Some ([0x09, 0xA0] @ brazil @ [0x20, 0x20, 0x200B, 0x0D] @ ascii ''Santos '')"
  have v: "sanitizeText nfcHangul ?x = brazil @ 0x20 # ascii ''Santos''"
    by (simp add: text_eval brazil_def)
  have n: "nfcHangul (brazil @ 0x20 # ascii ''Santos'') = brazil @ 0x20 # ascii ''Santos''"
    by (simp add: text_eval brazil_def)
  have e: "sanitizeText nfcHangul (Some []) = []"
    by (simp add: text_eval)
  from sanitizeText_guarantees[of nfcHangul ?x] v n e show ?thesis
    by simp
qed

section \<open>normalizeCountry: the table and the pass-through (claims C6 and C7)\<close>

text \<open>
  Claim C6: for every entry of the table, \<open>normalizeCountry\<close> maps the Korean name to
  its code, and maps the name with one space between every two characters to the same
  code. The names are in normal form, so normalization leaves them and their spaced
  variants as they are.
\<close>

theorem normalizeCountry_table:
  assumes "(k, v) \<in> set COUNTRY_ISO_MAP"
    and "nfc k = k"
    and "nfc (letterSpaced k) = letterSpaced k"
  shows "normalizeCountry nfc k = Str v \<and> normalizeCountry nfc (letterSpaced k) = Str v"
proof -
  have a: "normalizeCountry nfc k = Str v"
    using assms(1,2) unfolding COUNTRY_ISO_MAP_def
    by (auto simp: text_eval country_eval)
  have b: "normalizeCountry nfc (letterSpaced k) = Str v"
    using assms(1,3) unfolding COUNTRY_ISO_MAP_def
    by (auto simp: text_eval country_eval)
  from a b show ?thesis by simp
qed

theorem normalizeCountry_table_witness:
  "(brazil, ascii ''BR'') \<in> set COUNTRY_ISO_MAP \<and> nfcHangul brazil = brazil
   \<and> letterSpaced brazil = [0xBE0C, 0x20, 0xB77C, 0x20, 0xC9C8]
   \<and> nfcHangul (letterSpaced brazil) = letterSpaced brazil
   \<and> normalizeCountry nfcHangul brazil = Str (ascii ''BR'')
   \<and> normalizeCountry nfcHangul (letterSpaced brazil) = Str (ascii ''BR'')"
proof -
  have 1: "(brazil, ascii ''BR'') \<in> set COUNTRY_ISO_MAP"
    by (simp add: COUNTRY_ISO_MAP_def brazil_def)
  have 2: "nfcHangul brazil = brazil"
    by (simp add: brazil_def text_eval)
  have 3: "nfcHangul (letterSpaced brazil) = letterSpaced brazil"
    by (simp add: brazil_def text_eval)
  have 4: "letterSpaced brazil = [0xBE0C, 0x20, 0xB77C, 0x20, 0xC9C8]"
    by (simp add: brazil_def)
  from normalizeCountry_table[OF 1 2 3] 1 2 3 4 show ?thesis by simp
qed

text \<open>
  Claim C7, as it stands, fails: the string \<open>a b\<close> is not in the table, its sanitized
  text is \<open>a b\<close>, and \<open>normalizeCountry\<close> returns \<open>ab\<close>, because the repair
  rule for letter-spaced names rejoins the two one-character tokens.
\<close>

theorem normalizeCountry_not_passthrough:
  "map_of COUNTRY_ISO_MAP (ascii ''a b'') = None
   \<and> sanitizeText nfcHangul (Some (ascii ''a b'')) = ascii ''a b''
   \<and> normalizeCountry nfcHangul (ascii ''a b'') = Str (ascii ''ab'')"
  by (simp add: text_eval country_eval)

text \<open>
  Claim C7, amended: when the sanitized text, after the repair rule, is neither a key of
  the table nor the name of a property the table object inherits, \<open>normalizeCountry\<close>
  returns that sanitized and repaired text; it is \<open>sanitizeText\<close>'s result whenever
  the repair rule does not apply, that is, unless the sanitized text has two or more
  tokens and every token is one character long.
\<close>

theorem normalizeCountry_passthrough:
  assumes "lookupCountry (rejoinLetters (sanitizeText nfc (Some s))) = None"
  shows "normalizeCountry nfc s = Str (rejoinLetters (sanitizeText nfc (Some s)))
    \<and> (\<not> (length (tokensOf (sanitizeText nfc (Some s))) > 1
          \<and> list_all (\<lambda>t. length t = 1) (tokensOf (sanitizeText nfc (Some s)))) \<longrightarrow>
        normalizeCountry nfc s = Str (sanitizeText nfc (Some s)))"
  using assms by (auto simp: normalizeCountry_def rejoinLetters_def Let_def)

theorem normalizeCountry_passthrough_witness:
  "lookupCountry (rejoinLetters (sanitizeText nfcHangul (Some (ascii '' Santos  Estate '')))) = None
   \<and> tokensOf (sanitizeText nfcHangul (Some (ascii '' Santos  Estate ''))) =
       [ascii ''Santos'', ascii ''Estate'']
   \<and> normalizeCountry nfcHangul (ascii '' Santos  Estate '') = Str (ascii ''Santos Estate'')
   \<and> sanitizeText nfcHangul (Some (ascii '' Santos  Estate '')) = ascii ''Santos Estate''"
proof -
  let ?s = "ascii '' Santos  Estate ''"
  have 1: "lookupCountry (rejoinLetters (sanitizeText nfcHangul (Some ?s))) = None"
    by (simp add: text_eval country_eval)
  have 2: "tokensOf (sanitizeText nfcHangul (Some ?s)) = [ascii ''Santos'', ascii ''Estate'']"
    by (simp add: text_eval country_eval)
  have 3: "sanitizeText nfcHangul (Some ?s) = ascii ''Santos Estate''"
    by (simp add: text_eval)
  have 4: "\<not> (length (tokensOf (sanitizeText nfcHangul (Some ?s))) > 1
          \<and> list_all (\<lambda>t. length t = 1) (tokensOf (sanitizeText nfcHangul (Some ?s))))"
    unfolding 2 by (simp add: ascii_def)
  from normalizeCountry_passthrough[OF 1] 4
  have "normalizeCountry nfcHangul ?s = Str (sanitizeText nfcHangul (Some ?s))"
    by blast
  then have 5: "normalizeCountry nfcHangul ?s = Str (ascii ''Santos Estate'')"
    unfolding 3 .
  from 1 2 3 5 show ?thesis
    by blast
qed

section \<open>Facts about numbers\<close>

lemma bitLength_nonneg: "0 \<le> bitLength n"
  by (induction n rule: bitLength.induct) (subst bitLength.simps, auto)

lemma bitLength_pos: "0 < n \<Longrightarrow> 0 < bitLength n"
  using bitLength_nonneg[of "n div 2"] by (subst bitLength.simps) auto

lemma bitLength_1: "bitLength 1 = 1"
  by (simp add: bitLength.simps)

lemma bitLength_bounds:
  "0 < n \<Longrightarrow> 2 ^ nat (bitLength n - 1) \<le> n \<and> n < 2 ^ nat (bitLength n)"
proof (induction n rule: bitLength.induct)
  case (1 n)
  show ?case
  proof (cases "n = 1")
    case True
    with bitLength_1 show ?thesis by simp
  next
    case False
    with 1(2) have h: "0 < n div 2" by simp
    from 1(1) 1(2) h
    have ih: "2 ^ nat (bitLength (n div 2) - 1) \<le> n div 2
        \<and> n div 2 < 2 ^ nat (bitLength (n div 2))"
      by simp
    have bl: "bitLength n = 1 + bitLength (n div 2)"
      using 1(2) by (subst bitLength.simps) simp
    have p: "0 < bitLength (n div 2)" using h by (rule bitLength_pos)
    have e1: "nat (bitLength n - 1) = Suc (nat (bitLength (n div 2) - 1))"
      using bl p by simp
    have e2: "nat (bitLength n) = Suc (nat (bitLength (n div 2)))"
      using bl p by simp
    from ih show ?thesis unfolding e1 e2 by simp linarith
  qed
qed

lemma roundHalfEven_int: "roundHalfEven (of_int k) = k"
  by (simp add: roundHalfEven_def)

lemma binaryExponent_int:
  assumes "0 < n"
  shows "binaryExponent (of_int n) = bitLength n - 1"
proof -
  have q: "quotient_of (of_int n :: rat) = (n, 1)" by simp
  have bpos: "0 < bitLength n" using assms(1) by (rule bitLength_pos)
  from bitLength_bounds[OF assms(1)] have lo: "2 ^ nat (bitLength n - 1) \<le> n" by auto
  have "pow2 (bitLength n - 1) = of_int (2 ^ nat (bitLength n - 1))"
    using bpos by (simp add: pow2_def)
  also have "\<dots> \<le> of_int n" using lo by (simp only: of_int_le_iff)
  finally show ?thesis
    unfolding binaryExponent_def Let_def q fst_conv snd_conv bitLength_1 by simp
qed

text \<open>An integer below \<open>2^53\<close> is a double: rounding leaves it as it is.\<close>

lemma roundToDouble_exact:
  assumes "0 < n" "n < 2 ^ 53"
  shows "roundToDouble (of_int n) = Fin (of_int n)"
proof -
  let ?b = "bitLength n"
  have bpos: "0 < ?b" using assms(1) by (rule bitLength_pos)
  from bitLength_bounds[OF assms(1)] have lo: "2 ^ nat (?b - 1) \<le> n" and hi: "n < 2 ^ nat ?b"
    by auto
  have b53: "?b \<le> 53"
  proof (rule ccontr)
    assume "\<not> ?b \<le> 53"
    then have "53 \<le> nat (?b - 1)" by simp
    then have "(2::int) ^ 53 \<le> 2 ^ nat (?b - 1)" by (intro power_increasing) auto
    with lo assms(2) show False by linarith
  qed
  define k where "k = nat (53 - ?b)"
  have ab: "\<bar>of_int n :: rat\<bar> = of_int n" using assms(1) by simp
  have mx: "max (?b - 1) (- 1022) = ?b - 1" using bpos by simp
  have u: "pow2 (?b - 1 - 52) = 1 / 2 ^ k"
  proof -
    have "nat (- (?b - 1 - 52)) = k" unfolding k_def by simp
    moreover have "?b = 53 \<Longrightarrow> k = 0" unfolding k_def by simp
    ultimately show ?thesis using b53 by (auto simp: pow2_def)
  qed
  have m: "(of_int n :: rat) / (1 / 2 ^ k) = of_int (n * 2 ^ k)"
    by simp
  have ne: "(of_int n :: rat) \<noteq> 0" using assms(1) by simp
  have sg: "sgn (of_int n :: rat) = 1" using assms(1) by simp
  have fin: "of_int (n * 2 ^ k) * (1 / 2 ^ k) = (of_int n :: rat)" by simp
  have c1: "\<not> 1023 < ?b - 1" using b53 by simp
  have c2: "\<not> (?b - 1 = 1023 \<and> 2 ^ 53 \<le> n * 2 ^ k)" using b53 by simp
  show ?thesis
    unfolding roundToDouble_def Let_def ab binaryExponent_int[OF assms(1)] mx u m
      roundHalfEven_int
    using ne c1 c2 by (simp only: if_False sg fin mult_1 simp_thms)
qed

lemma roundToDouble_numeral:
  "(numeral k :: int) < 2 ^ 53 \<Longrightarrow> roundToDouble (numeral k) = Fin (numeral k)"
  using roundToDouble_exact[of "numeral k"] by simp

lemmas number_eval = jsNumber_def strDecimalLiteral_def strUnsignedDecimalLiteral_def
  nonDecimalIntegerLiteral_def exponentPart_def digitsValue_def digitValue_def isDigit_def
  isHexDigit_def pow10_def roundToDouble_numeral Let_def

lemmas scan_eval = scan_def rowsOf_def ALLOWED_SHEETS_def MAX_ROWS_SAFE_def cellAt_def
  countryIdx_def maybeCountry_def rowCountry_def rowName_def rowItem_def parsePrice_def
  stripCurrency_def digitsOf.simps

section \<open>Currency parsing (claim C8)\<close>

text \<open>What a pushed item says about the price cell, and what an invalid price does.\<close>

lemma rowItem_price:
  "rowItem nfc ns sheet nameIdx priceIdx cur item = Some it \<Longrightarrow>
     price it = parsePrice ns (cellAt item priceIdx) \<and> finitePositive (price it)"
  by (auto simp: rowItem_def Let_def split: if_splits)

lemma rowItem_invalid_price:
  "\<not> finitePositive (parsePrice ns (cellAt item priceIdx)) \<Longrightarrow>
     rowItem nfc ns sheet nameIdx priceIdx cur item = None"
  by (simp add: rowItem_def Let_def)

text \<open>
  Claim C8: the price cells \<open>12,000W\<close> (with the currency word U+C6D0),
  \<open>S12000\<close> (with the currency sign U+20A9) and \<open>12000\<close> between spaces all
  parse to 12000, a valid price; \<open>0\<close>, \<open>-5\<close>, \<open>abc\<close> and the empty string
  parse to a value that is not finite and positive; a row whose price cell parses to such
  a value pushes no item, and the price of a pushed item is the parsed, finite and
  positive value.
\<close>

theorem currency_parsing:
  "parsePrice ns (Some (CStr (ascii ''12,000'' @ [0xC6D0]))) = Fin 12000
   \<and> parsePrice ns (Some (CStr (0x20A9 # ascii ''12000''))) = Fin 12000
   \<and> parsePrice ns (Some (CStr (ascii '' 12000 ''))) = Fin 12000
   \<and> finitePositive (Fin 12000)
   \<and> \<not> finitePositive (parsePrice ns (Some (CStr (ascii ''0''))))
   \<and> \<not> finitePositive (parsePrice ns (Some (CStr (ascii ''-5''))))
   \<and> \<not> finitePositive (parsePrice ns (Some (CStr (ascii ''abc''))))
   \<and> \<not> finitePositive (parsePrice ns (Some (CStr [])))
   \<and> (\<not> finitePositive (parsePrice ns (cellAt item priceIdx)) \<longrightarrow>
        rowItem nfc ns sheet nameIdx priceIdx cur item = None)
   \<and> (rowItem nfc ns sheet nameIdx priceIdx cur item = Some it \<longrightarrow>
        price it = parsePrice ns (cellAt item priceIdx) \<and> finitePositive (price it))"
proof -
  have 1: "parsePrice ns (Some (CStr (ascii ''12,000'' @ [0xC6D0]))) = Fin 12000"
    by (simp add: parsePrice_def stripCurrency_def text_eval number_eval)
  have 2: "parsePrice ns (Some (CStr (0x20A9 # ascii ''12000''))) = Fin 12000"
    by (simp add: parsePrice_def stripCurrency_def text_eval number_eval)
  have 3: "parsePrice ns (Some (CStr (ascii '' 12000 ''))) = Fin 12000"
    by (simp add: parsePrice_def stripCurrency_def text_eval number_eval)
  have 4: "parsePrice ns (Some (CStr (ascii ''0''))) = Fin 0"
    by (simp add: parsePrice_def stripCurrency_def text_eval number_eval roundToDouble_def)
  have 5: "parsePrice ns (Some (CStr (ascii ''-5''))) = Fin (- 5)"
    by (simp add: parsePrice_def stripCurrency_def text_eval number_eval)
  have 6: "parsePrice ns (Some (CStr (ascii ''abc''))) = NaN"
    by (simp add: parsePrice_def stripCurrency_def text_eval number_eval)
  have 7: "parsePrice ns (Some (CStr [])) = Fin 0"
    by (simp add: parsePrice_def stripCurrency_def text_eval number_eval)
  have 8: "\<not> finitePositive (parsePrice ns (cellAt item priceIdx)) \<longrightarrow>
      rowItem nfc ns sheet nameIdx priceIdx cur item = None"
    using rowItem_invalid_price by blast
  have 9: "rowItem nfc ns sheet nameIdx priceIdx cur item = Some it \<longrightarrow>
      price it = parsePrice ns (cellAt item priceIdx) \<and> finitePositive (price it)"
    using rowItem_price by blast
  have 10: "finitePositive (Fin 12000) \<and> \<not> finitePositive (Fin 0)
      \<and> \<not> finitePositive (Fin (- 5)) \<and> \<not> finitePositive NaN"
    by simp
  from 8 9 10 show ?thesis
    unfolding 1 2 3 4 5 6 7 by blast
qed

text \<open>A row with the price \<open>abc\<close> is rejected; the same row priced 12,000 is accepted.\<close>

theorem currency_parsing_witness:
  "\<not> finitePositive (parsePrice printInteger
        (cellAt [CStr [], CStr brazil, CStr (ascii ''Santos''), CStr (ascii ''abc'')] 3))
   \<and> rowItem nfcHangul printInteger sheet1 2 3 (Str (ascii ''BR''))
        [CStr [], CStr brazil, CStr (ascii ''Santos''), CStr (ascii ''abc'')] = None
   \<and> rowItem nfcHangul printInteger sheet1 2 3 (Str (ascii ''BR''))
        [CStr [], CStr brazil, CStr (ascii ''Santos''), CStr (ascii ''12,000'' @ [0xC6D0])] =
      Some \<lparr>country = Str (ascii ''BR''), name = ascii ''Santos'', price = Fin 12000,
            priceGroup = sheet1\<rparr>"
proof -
  let ?bad = "[CStr [], CStr brazil, CStr (ascii ''Santos''), CStr (ascii ''abc'')]"
  let ?good = "[CStr [], CStr brazil, CStr (ascii ''Santos''), CStr (ascii ''12,000'' @ [0xC6D0])]"
  have c: "cellAt ?bad 3 = Some (CStr (ascii ''abc''))"
    by (simp add: cellAt_def)
  have g: "cellAt ?good 3 = Some (CStr (ascii ''12,000'' @ [0xC6D0]))"
    by (simp add: cellAt_def)
  have n: "rowName nfcHangul printInteger 2 ?good = ascii ''Santos''"
    by (simp add: rowName_def cellAt_def text_eval)
  from currency_parsing[of printInteger ?bad 3 nfcHangul sheet1 2 "Str (ascii ''BR'')"]
  have bad: "\<not> finitePositive (parsePrice printInteger (cellAt ?bad 3))
      \<and> rowItem nfcHangul printInteger sheet1 2 3 (Str (ascii ''BR'')) ?bad = None"
    unfolding c by blast
  from currency_parsing[of printInteger]
  have p: "parsePrice printInteger (Some (CStr (ascii ''12,000'' @ [0xC6D0]))) = Fin 12000"
    by blast
  have good: "rowItem nfcHangul printInteger sheet1 2 3 (Str (ascii ''BR'')) ?good =
      Some \<lparr>country = Str (ascii ''BR''), name = ascii ''Santos'', price = Fin 12000,
            priceGroup = sheet1\<rparr>"
    unfolding rowItem_def Let_def n g p by (simp add: ascii_def)
  from bad good show ?thesis by blast
qed

section \<open>Facts about the row walk\<close>

lemma walkRows_append:
  "walkRows nfc ns sheet nIdx pIdx cur (xs @ ys) =
     walkRows nfc ns sheet nIdx pIdx cur xs
     @ walkRows nfc ns sheet nIdx pIdx (countryAfter nfc cur xs) ys"
  by (induction xs arbitrary: cur) (simp_all add: countryAfter_def Let_def)

lemma rowCountry_quiet:
  "\<not> strTruthy (maybeCountry nfc r) \<Longrightarrow> rowCountry nfc cur r = cur"
  by (simp add: rowCountry_def Let_def)

lemma rowCountry_set:
  "strTruthy (maybeCountry nfc r) \<Longrightarrow> rowCountry nfc cur r = maybeCountry nfc r"
  by (simp add: rowCountry_def Let_def)

lemma rowCountry_truthy: "strTruthy cur \<Longrightarrow> strTruthy (rowCountry nfc cur r)"
  by (simp add: rowCountry_def Let_def)

lemma countryAfter_quiet:
  "\<forall>r \<in> set xs. \<not> strTruthy (maybeCountry nfc r) \<Longrightarrow> countryAfter nfc cur xs = cur"
  by (induction xs arbitrary: cur) (simp_all add: countryAfter_def rowCountry_quiet)

lemma countryAfter_truthy: "strTruthy cur \<Longrightarrow> strTruthy (countryAfter nfc cur xs)"
  by (induction xs arbitrary: cur) (simp_all add: countryAfter_def rowCountry_truthy)

lemma walkRows_quiet:
  "\<forall>r \<in> set xs. \<not> strTruthy (maybeCountry nfc r) \<Longrightarrow>
     walkRows nfc ns sheet nIdx pIdx cur xs = List.map_filter (rowItem nfc ns sheet nIdx pIdx cur) xs"
  by (induction xs) (auto simp: rowCountry_quiet List.map_filter_simps split: option.splits)

lemma rowItem_no_country: "rowItem nfc ns sheet nIdx pIdx (Str []) item = None"
  by (simp add: rowItem_def Let_def)

lemma rowItem_country:
  "rowItem nfc ns sheet nIdx pIdx cur item = Some it \<Longrightarrow> country it = cur \<and> strTruthy cur"
  by (auto simp: rowItem_def Let_def split: if_splits)

lemma walkRows_quiet_empty:
  "\<forall>r \<in> set xs. \<not> strTruthy (maybeCountry nfc r) \<Longrightarrow>
     walkRows nfc ns sheet nIdx pIdx (Str []) xs = []"
  by (induction xs) (auto simp: rowCountry_quiet rowItem_no_country)

lemma map_filter_rowItem_country:
  "it \<in> set (List.map_filter (rowItem nfc ns sheet nIdx pIdx cur) xs) \<Longrightarrow> country it = cur"
  by (auto simp: List.map_filter_def dest: rowItem_country)

lemma maybeCountry_cell:
  "cellAt item countryIdx = Some (CStr s) \<Longrightarrow> maybeCountry nfc item = normalizeCountry nfc s"
  by (simp add: maybeCountry_def)

lemma maybeCountry_omitted:
  "cellAt item countryIdx = None \<or> cellAt item countryIdx = Some (CStr []) \<Longrightarrow> nfc [] = [] \<Longrightarrow>
     \<not> strTruthy (maybeCountry nfc item)"
  by (auto simp: maybeCountry_def text_eval country_eval)

section \<open>Facts about the outer loops\<close>

lemma findIndex_None: "findIndex p xs = None \<longleftrightarrow> \<not> list_ex p xs"
  by (induction xs) auto

lemma scanRows_no_label:
  "\<forall>r \<in> set rows. \<not> isValidHeader r \<Longrightarrow> scanRows nfc ns sheet rows = []"
proof (induction rows)
  case Nil
  then show ?case by simp
next
  case (Cons r rows)
  then have "\<not> isValidHeader r" by simp
  then have "list_ex isNameLabel r \<Longrightarrow> findIndex isPriceLabel r = None"
    by (simp add: isValidHeader_def findIndex_None)
  with Cons show ?case by (auto split: option.splits)
qed

lemma scanRows_header:
  assumes "findIndex isNameLabel h = Some nIdx" "findIndex isPriceLabel h = Some pIdx"
  shows "scanRows nfc ns sheet (h # below) =
     walkRows nfc ns sheet nIdx pIdx (Str []) below @ scanRows nfc ns sheet below"
proof -
  from assms(1) have "list_ex isNameLabel h"
    using findIndex_None[of isNameLabel h] by simp
  with assms show ?thesis by simp
qed

lemma scanRows_skip:
  "\<not> list_ex isNameLabel r \<Longrightarrow> scanRows nfc ns sheet (r # rest) = scanRows nfc ns sheet rest"
  by simp

lemma scanSheets_ok:
  "\<forall>s \<in> set names. \<not> oversized wb s \<Longrightarrow>
     scanSheets nfc ns wb names =
       Inr (concat (map (\<lambda>s. scanRows nfc ns s (rowsOf wb s))
              (filter (\<lambda>s. s \<in> set ALLOWED_SHEETS) names)))"
  by (induction names) (auto simp: oversized_def Let_def)

lemma scan_single_sheet:
  assumes "SheetNames wb = [sheet]" "sheet \<in> set ALLOWED_SHEETS"
    "length (rowsOf wb sheet) \<le> MAX_ROWS_SAFE"
  shows "scan nfc ns wb =
    (if scanRows nfc ns sheet (rowsOf wb sheet) = [] then Inl NoValidItems
     else Inr (scanRows nfc ns sheet (rowsOf wb sheet)))"
  using assms by (simp add: scan_def Let_def)


lemma normalizeCountry_brazil:
  "nfc brazil = brazil \<Longrightarrow> normalizeCountry nfc brazil = Str (ascii ''BR'')"
  by (simp add: brazil_def text_eval country_eval)

section \<open>The sticky country (claim C2)\<close>

text \<open>
  Claim C2: in the walk below a header, once the country cell of a row is a string that
  normalizes to a non-empty value, every row from that one on is judged with that value
  as its country, up to the next row whose country cell normalizes to a non-empty value,
  and every item these rows push carries it. In particular, in a workbook whose only
  sheet is "(1)", with a header row that has a name label and a price label, a valid row
  with the country U+BE0C U+B77C U+C9C8 (Brazil) and two valid rows that omit the country
  cell (absent or empty), the scan returns three items, all with the country BR.
\<close>

theorem sticky_country:
  "(cellAt item countryIdx = Some (CStr s) \<and> strTruthy (normalizeCountry nfc s)
      \<and> (\<forall>r \<in> set rows. \<not> strTruthy (maybeCountry nfc r)) \<longrightarrow>
      walkRows nfc ns sheet nIdx pIdx cur (item # rows @ rest) =
        List.map_filter (rowItem nfc ns sheet nIdx pIdx (normalizeCountry nfc s)) (item # rows)
        @ walkRows nfc ns sheet nIdx pIdx (normalizeCountry nfc s) rest
      \<and> (\<forall>it \<in> set (List.map_filter
              (rowItem nfc ns sheet nIdx pIdx (normalizeCountry nfc s)) (item # rows)).
            country it = normalizeCountry nfc s))
   \<and> (nfc [] = [] \<and> nfc brazil = brazil
      \<and> SheetNames wb = [sheet1] \<and> rowsOf wb sheet1 = [h, r1, r2, r3]
      \<and> findIndex isNameLabel h = Some hn \<and> findIndex isPriceLabel h = Some hp
      \<and> cellAt r1 countryIdx = Some (CStr brazil)
      \<and> (cellAt r2 countryIdx = None \<or> cellAt r2 countryIdx = Some (CStr []))
      \<and> (cellAt r3 countryIdx = None \<or> cellAt r3 countryIdx = Some (CStr []))
      \<and> rowItem nfc ns sheet1 hn hp (Str (ascii ''BR'')) r1 = Some i1
      \<and> rowItem nfc ns sheet1 hn hp (Str (ascii ''BR'')) r2 = Some i2
      \<and> rowItem nfc ns sheet1 hn hp (Str (ascii ''BR'')) r3 = Some i3
      \<and> \<not> isValidHeader r1 \<and> \<not> isValidHeader r2 \<and> \<not> isValidHeader r3 \<longrightarrow>
      scan nfc ns wb = Inr [i1, i2, i3]
      \<and> country i1 = Str (ascii ''BR'') \<and> country i2 = Str (ascii ''BR'')
      \<and> country i3 = Str (ascii ''BR''))"
proof (intro conjI impI)
  assume a: "cellAt item countryIdx = Some (CStr s) \<and> strTruthy (normalizeCountry nfc s)
      \<and> (\<forall>r \<in> set rows. \<not> strTruthy (maybeCountry nfc r))"
  let ?v = "normalizeCountry nfc s"
  from a have m: "maybeCountry nfc item = ?v" by (simp add: maybeCountry_cell)
  with a have rc: "rowCountry nfc c item = ?v" for c by (simp add: rowCountry_set)
  from a have q: "\<forall>r \<in> set rows. \<not> strTruthy (maybeCountry nfc r)" by simp
  have ca: "countryAfter nfc ?v rows = ?v" using q by (rule countryAfter_quiet)
  have "walkRows nfc ns sheet nIdx pIdx cur (item # rows @ rest) =
      (case rowItem nfc ns sheet nIdx pIdx ?v item of None \<Rightarrow> [] | Some it \<Rightarrow> [it])
      @ walkRows nfc ns sheet nIdx pIdx ?v (rows @ rest)"
    by (simp add: rc Let_def)
  also have "walkRows nfc ns sheet nIdx pIdx ?v (rows @ rest) =
      List.map_filter (rowItem nfc ns sheet nIdx pIdx ?v) rows
      @ walkRows nfc ns sheet nIdx pIdx ?v rest"
    by (simp add: walkRows_append ca walkRows_quiet[OF q])
  finally show "walkRows nfc ns sheet nIdx pIdx cur (item # rows @ rest) =
        List.map_filter (rowItem nfc ns sheet nIdx pIdx ?v) (item # rows)
        @ walkRows nfc ns sheet nIdx pIdx ?v rest"
    by (simp add: List.map_filter_simps split: option.splits)
  show "\<forall>it \<in> set (List.map_filter (rowItem nfc ns sheet nIdx pIdx ?v) (item # rows)).
      country it = ?v"
    using map_filter_rowItem_country by blast
next
  assume b: "nfc [] = [] \<and> nfc brazil = brazil
      \<and> SheetNames wb = [sheet1] \<and> rowsOf wb sheet1 = [h, r1, r2, r3]
      \<and> findIndex isNameLabel h = Some hn \<and> findIndex isPriceLabel h = Some hp
      \<and> cellAt r1 countryIdx = Some (CStr brazil)
      \<and> (cellAt r2 countryIdx = None \<or> cellAt r2 countryIdx = Some (CStr []))
      \<and> (cellAt r3 countryIdx = None \<or> cellAt r3 countryIdx = Some (CStr []))
      \<and> rowItem nfc ns sheet1 hn hp (Str (ascii ''BR'')) r1 = Some i1
      \<and> rowItem nfc ns sheet1 hn hp (Str (ascii ''BR'')) r2 = Some i2
      \<and> rowItem nfc ns sheet1 hn hp (Str (ascii ''BR'')) r3 = Some i3
      \<and> \<not> isValidHeader r1 \<and> \<not> isValidHeader r2 \<and> \<not> isValidHeader r3"
  let ?BR = "Str (ascii ''BR'')"
  from b have br: "normalizeCountry nfc brazil = ?BR" by (simp add: normalizeCountry_brazil)
  from b br have m1: "maybeCountry nfc r1 = ?BR" by (simp add: maybeCountry_cell)
  then have c1: "rowCountry nfc (Str []) r1 = ?BR"
    by (simp add: rowCountry_def Let_def ascii_def)
  from b have q2: "\<not> strTruthy (maybeCountry nfc r2)" and q3: "\<not> strTruthy (maybeCountry nfc r3)"
    using maybeCountry_omitted by blast+
  have c2: "rowCountry nfc ?BR r2 = ?BR" and c3: "rowCountry nfc ?BR r3 = ?BR"
    using q2 q3 by (simp_all add: rowCountry_quiet)
  from b have walk: "walkRows nfc ns sheet1 hn hp (Str []) [r1, r2, r3] = [i1, i2, i3]"
    by (simp add: c1 c2 c3 Let_def)
  from b have none: "scanRows nfc ns sheet1 [r1, r2, r3] = []"
    by (intro scanRows_no_label) simp
  from b have rows: "scanRows nfc ns sheet1 (rowsOf wb sheet1) = [i1, i2, i3]"
    by (simp only: scanRows_header[of h hn hp] walk none append_Nil2)
  have al: "sheet1 \<in> set ALLOWED_SHEETS" by (simp add: sheet1_def ALLOWED_SHEETS_def)
  from b have len: "length (rowsOf wb sheet1) \<le> MAX_ROWS_SAFE" by (simp add: MAX_ROWS_SAFE_def)
  from b have sn: "SheetNames wb = [sheet1]" by simp
  show "scan nfc ns wb = Inr [i1, i2, i3]"
    by (simp add: scan_single_sheet[OF sn al len] rows)
  from b show "country i1 = ?BR" "country i2 = ?BR" "country i3 = ?BR"
    using rowItem_country by blast+
qed


text \<open>The workbook of the claim, with names and prices filled in.\<close>

theorem sticky_country_witness:
  "cellAt [CStr [], CStr brazil, CStr (ascii ''Santos''), CNum (Fin 12000)] countryIdx =
     Some (CStr brazil)
   \<and> normalizeCountry nfcHangul brazil = Str (ascii ''BR'')
   \<and> \<not> strTruthy (maybeCountry nfcHangul
         [CStr [], CStr [], CStr (ascii ''Cerrado''), CStr (ascii ''13,500'' @ [0xC6D0])])
   \<and> \<not> strTruthy (maybeCountry nfcHangul
         [CStr [], CStr [], CStr (ascii ''Mogiana''), CStr (0x20A9 # ascii ''14000'')])
   \<and> walkRows nfcHangul printInteger sheet1 2 3 (Str [])
        [[CStr [], CStr brazil, CStr (ascii ''Santos''), CNum (Fin 12000)],
         [CStr [], CStr [], CStr (ascii ''Cerrado''), CStr (ascii ''13,500'' @ [0xC6D0])],
         [CStr [], CStr [], CStr (ascii ''Mogiana''), CStr (0x20A9 # ascii ''14000'')]] =
      [\<lparr>country = Str (ascii ''BR''), name = ascii ''Santos'', price = Fin 12000,
         priceGroup = sheet1\<rparr>,
       \<lparr>country = Str (ascii ''BR''), name = ascii ''Cerrado'', price = Fin 13500,
         priceGroup = sheet1\<rparr>,
       \<lparr>country = Str (ascii ''BR''), name = ascii ''Mogiana'', price = Fin 14000,
         priceGroup = sheet1\<rparr>]
   \<and> scan nfcHangul printInteger wbSticky =
      Inr [\<lparr>country = Str (ascii ''BR''), name = ascii ''Santos'', price = Fin 12000,
             priceGroup = sheet1\<rparr>,
           \<lparr>country = Str (ascii ''BR''), name = ascii ''Cerrado'', price = Fin 13500,
             priceGroup = sheet1\<rparr>,
           \<lparr>country = Str (ascii ''BR''), name = ascii ''Mogiana'', price = Fin 14000,
             priceGroup = sheet1\<rparr>]"
proof -
  let ?r1 = "[CStr [], CStr brazil, CStr (ascii ''Santos''), CNum (Fin 12000)]"
  let ?r2 = "[CStr [], CStr [], CStr (ascii ''Cerrado''), CStr (ascii ''13,500'' @ [0xC6D0])]"
  let ?r3 = "[CStr [], CStr [], CStr (ascii ''Mogiana''), CStr (0x20A9 # ascii ''14000'')]"
  let ?BR = "Str (ascii ''BR'')"
  let ?i1 = "\<lparr>country = ?BR, name = ascii ''Santos'', price = Fin 12000, priceGroup = sheet1\<rparr>"
  let ?i2 = "\<lparr>country = ?BR, name = ascii ''Cerrado'', price = Fin 13500, priceGroup = sheet1\<rparr>"
  let ?i3 = "\<lparr>country = ?BR, name = ascii ''Mogiana'', price = Fin 14000, priceGroup = sheet1\<rparr>"
  have n0: "nfcHangul [] = []" by simp
  have nb: "nfcHangul brazil = brazil" by (simp add: brazil_def text_eval)
  have br: "normalizeCountry nfcHangul brazil = ?BR" using nb by (rule normalizeCountry_brazil)
  have sn: "SheetNames wbSticky = [sheet1]" by (simp add: wbSticky_def)
  have ro: "rowsOf wbSticky sheet1 = [headerBCD, ?r1, ?r2, ?r3]"
    by (simp add: wbSticky_def rowsOf_def)
  have hn: "findIndex isNameLabel headerBCD = Some 2"
    by (simp add: headerBCD_def)
  have hp: "findIndex isPriceLabel headerBCD = Some 3"
    by (simp add: headerBCD_def)
  have k1: "cellAt ?r1 countryIdx = Some (CStr brazil)"
    by (simp add: cellAt_def countryIdx_def)
  have k2: "cellAt ?r2 countryIdx = Some (CStr [])"
    by (simp add: cellAt_def countryIdx_def)
  have k3: "cellAt ?r3 countryIdx = Some (CStr [])"
    by (simp add: cellAt_def countryIdx_def)
  have q2: "\<not> strTruthy (maybeCountry nfcHangul ?r2)"
    using k2 n0 maybeCountry_omitted by blast
  have q3: "\<not> strTruthy (maybeCountry nfcHangul ?r3)"
    using k3 n0 maybeCountry_omitted by blast
  have v1: "rowItem nfcHangul printInteger sheet1 2 3 ?BR ?r1 = Some ?i1"
    by (simp add: scan_eval text_eval number_eval)
  have v2: "rowItem nfcHangul printInteger sheet1 2 3 ?BR ?r2 = Some ?i2"
    by (simp add: scan_eval text_eval number_eval)
  have v3: "rowItem nfcHangul printInteger sheet1 2 3 ?BR ?r3 = Some ?i3"
    by (simp add: scan_eval text_eval number_eval)
  have h1: "\<not> isValidHeader ?r1" and h2: "\<not> isValidHeader ?r2" and h3: "\<not> isValidHeader ?r3"
    by (simp_all add: isValidHeader_def brazil_def ascii_def)
  have tr: "strTruthy (normalizeCountry nfcHangul brazil)"
    unfolding br by (simp add: ascii_def)
  from sticky_country[where nfc = nfcHangul and ns = printInteger and item = ?r1 and s = brazil
      and rows = "[?r2, ?r3]" and rest = "[]" and sheet = sheet1 and nIdx = 2 and pIdx = 3
      and cur = "Str []" and wb = wbSticky and h = headerBCD and ?r1.0 = ?r1 and ?r2.0 = ?r2
      and ?r3.0 = ?r3 and hn = 2 and hp = 3 and ?i1.0 = ?i1 and ?i2.0 = ?i2 and ?i3.0 = ?i3]
  have gen: "walkRows nfcHangul printInteger sheet1 2 3 (Str []) (?r1 # [?r2, ?r3] @ []) =
        List.map_filter (rowItem nfcHangul printInteger sheet1 2 3 (normalizeCountry nfcHangul brazil))
          (?r1 # [?r2, ?r3])
        @ walkRows nfcHangul printInteger sheet1 2 3 (normalizeCountry nfcHangul brazil) []"
    and ex: "scan nfcHangul printInteger wbSticky = Inr [?i1, ?i2, ?i3]"
    using k1 k2 k3 tr q2 q3 n0 nb sn ro hn hp v1 v2 v3 h1 h2 h3 by auto
  from gen have w: "walkRows nfcHangul printInteger sheet1 2 3 (Str []) [?r1, ?r2, ?r3] =
      [?i1, ?i2, ?i3]"
    unfolding br by (simp add: List.map_filter_simps v1 v2 v3)
  from k1 br q2 q3 w ex show ?thesis by blast
qed


section \<open>The current country and later headers (claim C3)\<close>

text \<open>
  Claim C3, as it stands, fails. \<open>currentCountry\<close> is declared inside the header
  branch (\<open>let currentCountry = ""\<close>), so every valid header starts its walk with
  the empty country. In the sheet below the second section has its columns two places to
  the right and no country cell of its own; its row B has a name and a price, and gets no
  country: the first header's walk finds no name in its own name column, and the second
  header's walk has no country. The scan returns the item of row A alone.
\<close>

theorem later_header_not_carried:
  "scan nfcHangul printInteger wbTwoSections =
     Inr [\<lparr>country = Str (ascii ''BR''), name = ascii ''A'', price = Fin 100,
            priceGroup = sheet1\<rparr>]"
  by (simp add: wbTwoSections_def sheet1_def brazil_def scan_eval text_eval country_eval
      number_eval)

text \<open>
  Claim C3, amended: within one header's walk the current country, once non-empty, stays
  non-empty; every valid header starts a walk of its own, from the empty country, over
  all the rows below it, and the outer loop then goes on with the rows below, so that a
  later header starts another walk over rows the earlier walk has covered already; a run
  of rows without a country text (a later header row may be among them) leaves the current
  country of a walk as it is, so the rows of the run are judged with the country the walk
  had before the run; and the walk that starts at the later header pushes nothing for
  such a run.
\<close>

theorem country_across_headers:
  "(strTruthy cur \<longrightarrow> strTruthy (countryAfter nfc cur rows))
   \<and> (findIndex isNameLabel h = Some hn \<and> findIndex isPriceLabel h = Some hp \<longrightarrow>
        scanRows nfc ns sheet (h # below) =
          walkRows nfc ns sheet hn hp (Str []) below @ scanRows nfc ns sheet below)
   \<and> ((\<forall>r \<in> set sec. \<not> strTruthy (maybeCountry nfc r)) \<longrightarrow>
        walkRows nfc ns sheet nIdx pIdx cur (sec @ rest) =
          List.map_filter (rowItem nfc ns sheet nIdx pIdx cur) sec
          @ walkRows nfc ns sheet nIdx pIdx cur rest
        \<and> walkRows nfc ns sheet nIdx pIdx (Str []) sec = [])"
proof (intro conjI impI)
  assume "strTruthy cur"
  then show "strTruthy (countryAfter nfc cur rows)" by (rule countryAfter_truthy)
next
  assume "findIndex isNameLabel h = Some hn \<and> findIndex isPriceLabel h = Some hp"
  then show "scanRows nfc ns sheet (h # below) =
      walkRows nfc ns sheet hn hp (Str []) below @ scanRows nfc ns sheet below"
    using scanRows_header by blast
next
  assume q: "\<forall>r \<in> set sec. \<not> strTruthy (maybeCountry nfc r)"
  show "walkRows nfc ns sheet nIdx pIdx cur (sec @ rest) =
      List.map_filter (rowItem nfc ns sheet nIdx pIdx cur) sec
      @ walkRows nfc ns sheet nIdx pIdx cur rest"
    by (simp add: walkRows_append countryAfter_quiet[OF q] walkRows_quiet[OF q])
  show "walkRows nfc ns sheet nIdx pIdx (Str []) sec = []"
    using q by (rule walkRows_quiet_empty)
qed

text \<open>
  Two sections in the same columns: row B of the second section gets BR from the walk of
  the first header, and nothing from the walk of the second.
\<close>

theorem country_across_headers_witness:
  "countryAfter nfcHangul (Str (ascii ''BR''))
      [[CStr [], CStr [], CStr [0xD488, 0xBA85], CStr [0xB2E8, 0xAC00]],
       [CStr [], CStr [], CStr (ascii ''B''), CNum (Fin 200)]] = Str (ascii ''BR'')
   \<and> walkRows nfcHangul printInteger sheet1 2 3 (Str (ascii ''BR''))
      [[CStr [], CStr [], CStr [0xD488, 0xBA85], CStr [0xB2E8, 0xAC00]],
       [CStr [], CStr [], CStr (ascii ''B''), CNum (Fin 200)]] =
      [\<lparr>country = Str (ascii ''BR''), name = ascii ''B'', price = Fin 200, priceGroup = sheet1\<rparr>]
   \<and> walkRows nfcHangul printInteger sheet1 2 3 (Str [])
      [[CStr [], CStr [], CStr [0xD488, 0xBA85], CStr [0xB2E8, 0xAC00]],
       [CStr [], CStr [], CStr (ascii ''B''), CNum (Fin 200)]] = []
   \<and> scan nfcHangul printInteger wbCarry =
      Inr [\<lparr>country = Str (ascii ''BR''), name = ascii ''A'', price = Fin 100,
             priceGroup = sheet1\<rparr>,
           \<lparr>country = Str (ascii ''BR''), name = ascii ''B'', price = Fin 200,
             priceGroup = sheet1\<rparr>]"
proof -
  let ?h = "[CStr [], CStr [], CStr [0xD488, 0xBA85], CStr [0xB2E8, 0xAC00]]"
  let ?a = "[CStr [], CStr brazil, CStr (ascii ''A''), CNum (Fin 100)]"
  let ?b = "[CStr [], CStr [], CStr (ascii ''B''), CNum (Fin 200)]"
  let ?BR = "Str (ascii ''BR'')"
  let ?ia = "\<lparr>country = ?BR, name = ascii ''A'', price = Fin 100, priceGroup = sheet1\<rparr>"
  let ?ib = "\<lparr>country = ?BR, name = ascii ''B'', price = Fin 200, priceGroup = sheet1\<rparr>"
  note inst = country_across_headers[where nfc = nfcHangul and ns = printInteger
      and sheet = sheet1 and cur = ?BR and rows = "[?h, ?b]" and h = ?h and hn = 2 and hp = 3
      and below = "[?a, ?h, ?b]" and sec = "[?h, ?b]" and rest = "[]" and nIdx = 2 and pIdx = 3]
  have tr: "strTruthy ?BR" by (simp add: ascii_def)
  have hn: "findIndex isNameLabel ?h = Some 2" by simp
  have hp: "findIndex isPriceLabel ?h = Some 3" by simp
  have q: "\<forall>r \<in> set [?h, ?b]. \<not> strTruthy (maybeCountry nfcHangul r)"
    by (simp add: maybeCountry_def cellAt_def countryIdx_def text_eval country_eval)
  have ca: "countryAfter nfcHangul ?BR [?h, ?b] = ?BR"
    using q by (rule countryAfter_quiet)
  from inst tr have t1: "strTruthy (countryAfter nfcHangul ?BR [?h, ?b])" by blast
  from inst hn hp have t2: "scanRows nfcHangul printInteger sheet1 (?h # [?a, ?h, ?b]) =
      walkRows nfcHangul printInteger sheet1 2 3 (Str []) [?a, ?h, ?b]
      @ scanRows nfcHangul printInteger sheet1 [?a, ?h, ?b]"
    by blast
  from inst q have t3: "walkRows nfcHangul printInteger sheet1 2 3 ?BR ([?h, ?b] @ []) =
      List.map_filter (rowItem nfcHangul printInteger sheet1 2 3 ?BR) [?h, ?b]
      @ walkRows nfcHangul printInteger sheet1 2 3 ?BR []"
    and t4: "walkRows nfcHangul printInteger sheet1 2 3 (Str []) [?h, ?b] = []"
    by blast+
  have vh: "rowItem nfcHangul printInteger sheet1 2 3 ?BR ?h = None"
    by (simp add: scan_eval text_eval number_eval)
  have vb: "rowItem nfcHangul printInteger sheet1 2 3 ?BR ?b = Some ?ib"
    by (simp add: scan_eval text_eval number_eval)
  have va: "rowItem nfcHangul printInteger sheet1 2 3 ?BR ?a = Some ?ia"
    by (simp add: scan_eval text_eval number_eval)
  from t3 have w1: "walkRows nfcHangul printInteger sheet1 2 3 ?BR [?h, ?b] = [?ib]"
    by (simp add: List.map_filter_simps vh vb)
  have nb: "nfcHangul brazil = brazil" by (simp add: brazil_def text_eval)
  have br: "normalizeCountry nfcHangul brazil = ?BR" using nb by (rule normalizeCountry_brazil)
  have ra: "rowCountry nfcHangul (Str []) ?a = ?BR"
    by (simp add: rowCountry_def maybeCountry_def cellAt_def countryIdx_def Let_def br
        ascii_def)
  have w2: "walkRows nfcHangul printInteger sheet1 2 3 (Str []) [?a, ?h, ?b] = [?ia, ?ib]"
    by (subst walkRows.simps(2)) (simp only: Let_def ra va w1, simp)
  have nl: "\<not> list_ex isNameLabel ?a" "\<not> list_ex isNameLabel ?b"
    by (simp_all add: brazil_def ascii_def)
  have qb: "\<forall>r \<in> set [?b]. \<not> strTruthy (maybeCountry nfcHangul r)"
    using q by simp
  have wb0: "walkRows nfcHangul printInteger sheet1 2 3 (Str []) [?b] = []"
    using qb by (rule walkRows_quiet_empty)
  have sb: "scanRows nfcHangul printInteger sheet1 [?b] = []"
    unfolding scanRows_skip[OF nl(2)] by simp
  have sh: "scanRows nfcHangul printInteger sheet1 (?h # [?b]) = []"
    unfolding scanRows_header[OF hn hp] wb0 sb by simp
  have s2: "scanRows nfcHangul printInteger sheet1 (?a # [?h, ?b]) = []"
    unfolding scanRows_skip[OF nl(1)] by (rule sh)
  have ro: "rowsOf wbCarry sheet1 = [?h, ?a, ?h, ?b]"
    by (simp add: wbCarry_def rowsOf_def)
  have sn: "SheetNames wbCarry = [sheet1]" by (simp add: wbCarry_def)
  have al: "sheet1 \<in> set ALLOWED_SHEETS" by (simp add: sheet1_def ALLOWED_SHEETS_def)
  have len: "length (rowsOf wbCarry sheet1) \<le> MAX_ROWS_SAFE"
    by (simp add: ro MAX_ROWS_SAFE_def)
  have sc: "scan nfcHangul printInteger wbCarry = Inr [?ia, ?ib]"
    unfolding scan_single_sheet[OF sn al len] ro t2 w2 s2 by simp
  from ca w1 t4 sc show ?thesis by blast
qed

section \<open>The scan and the specification's wording of it (claim C1)\<close>

lemma specWalk_fold:
  "snd (foldl
       (\<lambda>(cur, acc) item.
          let cur' = rowCountry nfc cur item
          in (cur', acc @ (case rowItem nfc ns sheet nIdx pIdx cur' item of
                             None \<Rightarrow> []
                           | Some it \<Rightarrow> [it])))
       (cur, acc) rows) = acc @ walkRows nfc ns sheet nIdx pIdx cur rows"
  by (induction rows arbitrary: cur acc) (simp_all add: Let_def)

lemma specWalk_walkRows:
  "specWalk nfc ns sheet nIdx pIdx rows = walkRows nfc ns sheet nIdx pIdx (Str []) rows"
  unfolding specWalk_def by (simp add: specWalk_fold)

lemma findIndex_Some: "list_ex p xs \<Longrightarrow> \<exists>i. findIndex p xs = Some i"
  by (induction xs) auto

lemma scanRows_not_header:
  "\<not> isValidHeader r \<Longrightarrow> scanRows nfc ns sheet (r # rest) = scanRows nfc ns sheet rest"
proof -
  assume "\<not> isValidHeader r"
  then have "list_ex isNameLabel r \<Longrightarrow> findIndex isPriceLabel r = None"
    by (simp add: isValidHeader_def findIndex_None)
  then show ?thesis by (auto split: option.splits)
qed

lemma scanRows_single_header:
  "length (filter isValidHeader rows) \<le> 1 \<Longrightarrow>
     scanRows nfc ns sheet rows = specSheetItems nfc ns sheet rows"
proof (induction rows)
  case Nil
  then show ?case by (simp add: specSheetItems_def)
next
  case (Cons r rows)
  show ?case
  proof (cases "isValidHeader r")
    case True
    with Cons.prems have "filter isValidHeader rows = []" by simp
    then have none: "\<forall>x \<in> set rows. \<not> isValidHeader x"
      by (simp add: filter_empty_conv)
    from True obtain n p where np: "findIndex isNameLabel r = Some n"
        "findIndex isPriceLabel r = Some p"
      unfolding isValidHeader_def using findIndex_Some by blast
    have "scanRows nfc ns sheet (r # rows) = walkRows nfc ns sheet n p (Str []) rows"
      by (simp only: scanRows_header[OF np] scanRows_no_label[OF none] append_Nil2)
    moreover have "specSheetItems nfc ns sheet (r # rows) = specWalk nfc ns sheet n p rows"
      using True np by (simp add: specSheetItems_def)
    ultimately show ?thesis by (simp add: specWalk_walkRows)
  next
    case False
    with Cons.prems have "length (filter isValidHeader rows) \<le> 1" by simp
    with Cons.IH have "scanRows nfc ns sheet rows = specSheetItems nfc ns sheet rows" by simp
    moreover have "specSheetItems nfc ns sheet (r # rows) = specSheetItems nfc ns sheet rows"
      using False by (simp add: specSheetItems_def)
    ultimately show ?thesis by (simp only: scanRows_not_header[OF False])
  qed
qed

text \<open>
  Claim C1, as it stands, fails. The workbook below has a valid row in sheet "(1)" and
  20001 rows in sheet "(2)": a valid row is found, and the scan does not succeed; it
  fails, with the error of the size guard and not with NoValidItems.
\<close>

theorem oversized_sheet_no_items:
  "scanRows nfcHangul printInteger sheet1 (rowsOf wbOversized sheet1) =
     [\<lparr>country = Str (ascii ''BR''), name = ascii ''Santos'', price = Fin 12000,
        priceGroup = sheet1\<rparr>]
   \<and> scan nfcHangul printInteger wbOversized = Inl (SheetTooLarge 20001)"
proof -
  have a: "scanRows nfcHangul printInteger sheet1 (rowsOf wbOversized sheet1) =
     [\<lparr>country = Str (ascii ''BR''), name = ascii ''Santos'', price = Fin 12000,
        priceGroup = sheet1\<rparr>]"
    by (simp add: wbOversized_def sheet1_def headerBCD_def brazil_def scan_eval text_eval
        country_eval number_eval)
  have b: "scan nfcHangul printInteger wbOversized = Inl (SheetTooLarge 20001)"
    by (simp add: wbOversized_def sheet1_def scan_def rowsOf_def ALLOWED_SHEETS_def
        MAX_ROWS_SAFE_def ascii_def Let_def)
  from a b show ?thesis by simp
qed

text \<open>
  Claim C1, amended: for every workbook that has a sheet, whose permitted sheets are
  within the row ceiling and have at most one valid header row each, the scan fails with
  NoValidItems exactly when no row of a permitted sheet is valid, and otherwise succeeds
  with exactly the items of the valid rows, one item for each, in the order of the sheets
  and within a sheet in the order of the rows, as \<open>specItems\<close> lists them.
\<close>

theorem scan_refines_spec:
  assumes "SheetNames wb \<noteq> []"
    and "\<forall>s \<in> set (SheetNames wb). s \<in> set ALLOWED_SHEETS \<longrightarrow>
           length (rowsOf wb s) \<le> MAX_ROWS_SAFE
           \<and> length (filter isValidHeader (rowsOf wb s)) \<le> 1"
  shows "scan nfc ns wb =
    (if specItems nfc ns wb = [] then Inl NoValidItems else Inr (specItems nfc ns wb))"
proof -
  from assms(2) have ok: "\<forall>s \<in> set (SheetNames wb). \<not> oversized wb s"
    by (auto simp: oversized_def)
  have each: "scanRows nfc ns s (rowsOf wb s) = specSheetItems nfc ns s (rowsOf wb s)"
    if "s \<in> set (filter (\<lambda>s. s \<in> set ALLOWED_SHEETS) (SheetNames wb))" for s
    using that assms(2) by (intro scanRows_single_header) simp
  have "map (\<lambda>s. scanRows nfc ns s (rowsOf wb s))
          (filter (\<lambda>s. s \<in> set ALLOWED_SHEETS) (SheetNames wb)) =
        map (\<lambda>s. specSheetItems nfc ns s (rowsOf wb s))
          (filter (\<lambda>s. s \<in> set ALLOWED_SHEETS) (SheetNames wb))"
    by (rule map_cong[OF refl]) (rule each)
  then have "scanSheets nfc ns wb (SheetNames wb) = Inr (specItems nfc ns wb)"
    by (simp only: scanSheets_ok[OF ok] specItems_def)
  with assms(1) show ?thesis by (simp add: scan_def)
qed


text \<open>The workbook with one header and three valid rows.\<close>

theorem scan_refines_spec_witness:
  "SheetNames wbSticky \<noteq> []
   \<and> length (rowsOf wbSticky sheet1) \<le> MAX_ROWS_SAFE
   \<and> length (filter isValidHeader (rowsOf wbSticky sheet1)) = 1
   \<and> specItems nfcHangul printInteger wbSticky =
      [\<lparr>country = Str (ascii ''BR''), name = ascii ''Santos'', price = Fin 12000,
         priceGroup = sheet1\<rparr>,
       \<lparr>country = Str (ascii ''BR''), name = ascii ''Cerrado'', price = Fin 13500,
         priceGroup = sheet1\<rparr>,
       \<lparr>country = Str (ascii ''BR''), name = ascii ''Mogiana'', price = Fin 14000,
         priceGroup = sheet1\<rparr>]
   \<and> scan nfcHangul printInteger wbSticky =
      Inr [\<lparr>country = Str (ascii ''BR''), name = ascii ''Santos'', price = Fin 12000,
             priceGroup = sheet1\<rparr>,
           \<lparr>country = Str (ascii ''BR''), name = ascii ''Cerrado'', price = Fin 13500,
             priceGroup = sheet1\<rparr>,
           \<lparr>country = Str (ascii ''BR''), name = ascii ''Mogiana'', price = Fin 14000,
             priceGroup = sheet1\<rparr>]"
proof -
  have sn: "SheetNames wbSticky = [sheet1]" by (simp add: wbSticky_def)
  have len: "length (rowsOf wbSticky sheet1) \<le> MAX_ROWS_SAFE"
    by (simp add: wbSticky_def rowsOf_def MAX_ROWS_SAFE_def)
  have one: "length (filter isValidHeader (rowsOf wbSticky sheet1)) = 1"
    by (simp add: wbSticky_def rowsOf_def isValidHeader_def headerBCD_def brazil_def ascii_def)
  have items: "specItems nfcHangul printInteger wbSticky =
      [\<lparr>country = Str (ascii ''BR''), name = ascii ''Santos'', price = Fin 12000,
         priceGroup = sheet1\<rparr>,
       \<lparr>country = Str (ascii ''BR''), name = ascii ''Cerrado'', price = Fin 13500,
         priceGroup = sheet1\<rparr>,
       \<lparr>country = Str (ascii ''BR''), name = ascii ''Mogiana'', price = Fin 14000,
         priceGroup = sheet1\<rparr>]"
    by (simp add: specItems_def specSheetItems_def specWalk_def isValidHeader_def
        wbSticky_def sheet1_def headerBCD_def brazil_def scan_eval text_eval country_eval
        number_eval)
  have hyp: "\<forall>s \<in> set (SheetNames wbSticky). s \<in> set ALLOWED_SHEETS \<longrightarrow>
           length (rowsOf wbSticky s) \<le> MAX_ROWS_SAFE
           \<and> length (filter isValidHeader (rowsOf wbSticky s)) \<le> 1"
    using len one by (simp add: sn)
  have ne: "SheetNames wbSticky \<noteq> []" by (simp add: sn)
  from scan_refines_spec[OF ne hyp, of nfcHangul printInteger] ne len one items
  show ?thesis by simp
qed

text \<open>
  Outside the amended claim: a workbook without sheets fails with its own error, and in a
  sheet with two valid headers the walk of each header runs to the end of the sheet, so
  the row C below the second header is pushed by both walks.
\<close>

lemma scan_empty_workbook: "SheetNames wb = [] \<Longrightarrow> scan nfc ns wb = Inl EmptyWorkbook"
  by (simp add: scan_def)

lemma row_below_two_headers:
  "scan nfcHangul printInteger wbTwoHeaders =
     Inr [\<lparr>country = Str (ascii ''BR''), name = ascii ''A'', price = Fin 100,
            priceGroup = sheet1\<rparr>,
          \<lparr>country = Str (ascii ''BR''), name = ascii ''C'', price = Fin 300,
            priceGroup = sheet1\<rparr>,
          \<lparr>country = Str (ascii ''BR''), name = ascii ''C'', price = Fin 300,
            priceGroup = sheet1\<rparr>]"
  by (simp add: wbTwoHeaders_def sheet1_def brazil_def scan_eval text_eval country_eval
      number_eval)

section \<open>The size guard (claim C9)\<close>

lemma scanSheets_oversized:
  "find (oversized wb) names = Some t \<Longrightarrow>
     scanSheets nfc ns wb names = Inl (SheetTooLarge (length (rowsOf wb t)))"
proof (induction names)
  case Nil
  then show ?case by simp
next
  case (Cons sheet others)
  show ?case
  proof (cases "oversized wb sheet")
    case True
    with Cons.prems have "t = sheet" by simp
    with True show ?thesis by (simp add: oversized_def Let_def)
  next
    case False
    with Cons.prems have "find (oversized wb) others = Some t" by simp
    with Cons.IH have "scanSheets nfc ns wb others = Inl (SheetTooLarge (length (rowsOf wb t)))"
      by simp
    with False show ?thesis by (simp add: oversized_def Let_def)
  qed
qed

text \<open>
  Claim C9: when a workbook has a permitted sheet with more rows than the ceiling of
  20000, the scan fails with the error of the size guard, whatever the other sheets hold;
  the error names the row count of such a sheet, the first one in the order of the
  sheets.
\<close>

theorem oversized_sheet_fails:
  assumes "s \<in> set (SheetNames wb)"
    and "s \<in> set ALLOWED_SHEETS"
    and "MAX_ROWS_SAFE < length (rowsOf wb s)"
  shows "\<exists>t. find (oversized wb) (SheetNames wb) = Some t
    \<and> t \<in> set (SheetNames wb) \<and> oversized wb t
    \<and> scan nfc ns wb = Inl (SheetTooLarge (length (rowsOf wb t)))"
proof -
  from assms have "oversized wb s" by (simp add: oversized_def)
  with assms(1) have "find (oversized wb) (SheetNames wb) \<noteq> None"
    by (auto simp: find_None_iff)
  then obtain t where t: "find (oversized wb) (SheetNames wb) = Some t" by blast
  then have mem: "t \<in> set (SheetNames wb)" and ov: "oversized wb t"
    by (auto simp: find_Some_iff)
  from assms(1) have "SheetNames wb \<noteq> []" by auto
  then have "scan nfc ns wb = Inl (SheetTooLarge (length (rowsOf wb t)))"
    by (simp add: scan_def scanSheets_oversized[OF t])
  with t mem ov show ?thesis by blast
qed

text \<open>Sheet "(1)" would yield an item; sheet "(2)" has 20001 rows.\<close>

theorem oversized_sheet_fails_witness:
  "ascii ''(2)'' \<in> set (SheetNames wbOversized)
   \<and> ascii ''(2)'' \<in> set ALLOWED_SHEETS
   \<and> length (rowsOf wbOversized (ascii ''(2)'')) = 20001
   \<and> find (oversized wbOversized) (SheetNames wbOversized) = Some (ascii ''(2)'')
   \<and> scan nfcHangul printInteger wbOversized = Inl (SheetTooLarge 20001)"
proof -
  have 1: "ascii ''(2)'' \<in> set (SheetNames wbOversized)" by (simp add: wbOversized_def)
  have 2: "ascii ''(2)'' \<in> set ALLOWED_SHEETS" by (simp add: ALLOWED_SHEETS_def)
  have 3: "length (rowsOf wbOversized (ascii ''(2)'')) = 20001"
    by (simp add: wbOversized_def rowsOf_def sheet1_def ascii_def)
  have 4: "MAX_ROWS_SAFE < length (rowsOf wbOversized (ascii ''(2)''))"
    unfolding 3 by (simp add: MAX_ROWS_SAFE_def)
  have 5: "\<not> oversized wbOversized sheet1"
    by (simp add: oversized_def wbOversized_def rowsOf_def sheet1_def MAX_ROWS_SAFE_def
        ascii_def)
  have 6: "find (oversized wbOversized) (SheetNames wbOversized) = Some (ascii ''(2)'')"
    by (simp add: wbOversized_def oversized_def rowsOf_def sheet1_def MAX_ROWS_SAFE_def
        ALLOWED_SHEETS_def ascii_def)
  from oversized_sheet_fails[OF 1 2 4, of nfcHangul printInteger] 1 2 3 6 show ?thesis
    by auto
qed

section \<open>Rows shorter than a column index (claim C10)\<close>

text \<open>
  Claim C10: reading a cell past the end of a row gives the missing value and never
  fails; a data row shorter than the name column index, the price column index or the
  country column index (normalization leaving the empty string empty) pushes no item; and
  a row without a country cell is read as a row with an empty one: it leaves the current
  country as it is. The first two cases hold already when the row ends just before the
  cell.
\<close>

theorem short_rows:
  "(length item \<le> i \<longrightarrow> cellAt item i = None)
   \<and> (nfc [] = [] \<and> (length item < nameIdx \<or> length item < priceIdx
          \<or> length item < countryIdx) \<longrightarrow>
        rowItem nfc ns sheet nameIdx priceIdx cur item = None)
   \<and> (nfc [] = [] \<and> length item \<le> nameIdx \<longrightarrow>
        rowItem nfc ns sheet nameIdx priceIdx cur item = None)
   \<and> (length item \<le> priceIdx \<longrightarrow> rowItem nfc ns sheet nameIdx priceIdx cur item = None)
   \<and> (length item \<le> countryIdx \<longrightarrow> rowCountry nfc cur item = cur)"
proof -
  have cell: "cellAt item i = None" if "length item \<le> i" for i
    using that by (simp add: cellAt_def)
  have nm: "rowItem nfc ns sheet nameIdx priceIdx cur item = None"
    if "nfc [] = []" "length item \<le> nameIdx"
  proof -
    from that have "rowName nfc ns nameIdx item = []"
      by (simp add: rowName_def cellAt_def text_eval)
    then show ?thesis by (simp add: rowItem_def)
  qed
  have pr: "rowItem nfc ns sheet nameIdx priceIdx cur item = None"
    if "length item \<le> priceIdx"
  proof -
    from that have "\<not> truthy (cellAt item priceIdx)" by (simp add: cellAt_def)
    then show ?thesis by (simp add: rowItem_def Let_def)
  qed
  have co: "rowCountry nfc cur item = cur" if "length item \<le> countryIdx"
  proof -
    from that have "maybeCountry nfc item = Str []" by (simp add: maybeCountry_def cellAt_def)
    then show ?thesis by (simp add: rowCountry_def)
  qed
  have any: "rowItem nfc ns sheet nameIdx priceIdx cur item = None"
    if "nfc [] = []"
      "length item < nameIdx \<or> length item < priceIdx \<or> length item < countryIdx"
  proof -
    from that(2) consider "length item \<le> nameIdx" | "length item \<le> priceIdx"
      by (auto simp: countryIdx_def)
    then show ?thesis using nm[OF that(1)] pr by cases auto
  qed
  from cell nm pr co any show ?thesis by blast
qed

text \<open>A row of one cell and the empty row, read at columns past their ends.\<close>

theorem short_rows_witness:
  "cellAt [CStr (ascii ''200'')] 1 = None
   \<and> nfcHangul [] = []
   \<and> rowItem nfcHangul printInteger sheet1 2 0 (Str (ascii ''BR'')) [CStr (ascii ''200'')] = None
   \<and> rowItem nfcHangul printInteger sheet1 0 2 (Str (ascii ''BR'')) [CStr (ascii ''200'')] = None
   \<and> rowItem nfcHangul printInteger sheet1 0 0 (Str (ascii ''BR'')) [] = None
   \<and> rowCountry nfcHangul (Str (ascii ''BR'')) [CStr (ascii ''200'')] = Str (ascii ''BR'')"
proof -
  let ?item = "[CStr (ascii ''200'')]"
  let ?BR = "Str (ascii ''BR'')"
  have l1: "length ?item \<le> 1" by simp
  have l2: "length ?item < 2" by simp
  have l0: "length ([] :: row) < countryIdx" by (simp add: countryIdx_def)
  have lc: "length ?item \<le> countryIdx" by (simp add: countryIdx_def)
  have n0: "nfcHangul [] = []" by simp
  from short_rows[of ?item 1 nfcHangul 2 0 printInteger sheet1 ?BR] l1 l2 lc n0
  have a: "cellAt ?item 1 = None"
    and b: "rowItem nfcHangul printInteger sheet1 2 0 ?BR ?item = None"
    and c: "rowCountry nfcHangul ?BR ?item = ?BR"
    by blast+
  from short_rows[of ?item 1 nfcHangul 0 2 printInteger sheet1 ?BR] l2 n0
  have d: "rowItem nfcHangul printInteger sheet1 0 2 ?BR ?item = None"
    by blast
  from short_rows[of "[]" 1 nfcHangul 0 0 printInteger sheet1 ?BR] l0 n0
  have e: "rowItem nfcHangul printInteger sheet1 0 0 ?BR [] = None"
    by blast
  from a b c d e n0 show ?thesis by blast
qed

text \<open>
  The edge of the claim: a row that holds its name and price cells and ends just before
  the country column is not shorter than the country column index, and is not skipped.
  Below, one header cell holds both labels, so name and price are read from column A; the
  last row has that one cell only and pushes an item with the country of the row before.
\<close>

lemma row_without_country_cell:
  "length [CStr (ascii ''200'')] = countryIdx
   \<and> scan nfcHangul printInteger wbShortRow =
      Inr [\<lparr>country = Str (ascii ''BR''), name = ascii ''100'', price = Fin 100,
             priceGroup = sheet1\<rparr>,
           \<lparr>country = Str (ascii ''BR''), name = ascii ''200'', price = Fin 200,
             priceGroup = sheet1\<rparr>]"
  by (simp add: wbShortRow_def sheet1_def brazil_def scan_eval text_eval country_eval
      number_eval)

section \<open>The fields of a returned item (claim C4)\<close>

lemma rowItem_fields:
  "rowItem nfc ns sheet nameIdx priceIdx cur item = Some it \<Longrightarrow>
     strTruthy (country it) \<and> name it \<noteq> [] \<and> finitePositive (price it)
     \<and> priceGroup it = sheet"
  by (auto simp: rowItem_def Let_def split: if_splits)

lemma walkRows_fields:
  "it \<in> set (walkRows nfc ns sheet nameIdx priceIdx cur rows) \<Longrightarrow>
     strTruthy (country it) \<and> name it \<noteq> [] \<and> finitePositive (price it)
     \<and> priceGroup it = sheet"
proof (induction rows arbitrary: cur)
  case Nil
  then show ?case by simp
next
  case (Cons r rows)
  let ?c = "rowCountry nfc cur r"
  from Cons.prems
  consider "rowItem nfc ns sheet nameIdx priceIdx ?c r = Some it"
    | "it \<in> set (walkRows nfc ns sheet nameIdx priceIdx ?c rows)"
    by (auto simp: Let_def split: option.splits)
  then show ?case
  proof cases
    case 1
    then show ?thesis by (rule rowItem_fields)
  next
    case 2
    then show ?thesis by (rule Cons.IH)
  qed
qed

lemma scanRows_fields:
  "it \<in> set (scanRows nfc ns sheet rows) \<Longrightarrow>
     strTruthy (country it) \<and> name it \<noteq> [] \<and> finitePositive (price it)
     \<and> priceGroup it = sheet"
proof (induction rows)
  case Nil
  then show ?case by simp
next
  case (Cons r rows)
  then show ?case
    by (auto split: if_splits option.splits dest: walkRows_fields)
qed

lemma scanSheets_fields:
  "scanSheets nfc ns wb names = Inr items \<Longrightarrow> it \<in> set items \<Longrightarrow>
     strTruthy (country it) \<and> name it \<noteq> [] \<and> finitePositive (price it)
     \<and> priceGroup it \<in> set ALLOWED_SHEETS \<and> priceGroup it \<in> set names"
proof (induction names arbitrary: items)
  case Nil
  then show ?case by simp
next
  case (Cons sheet others)
  show ?case
  proof (cases "sheet \<in> set ALLOWED_SHEETS")
    case False
    with Cons.prems have "scanSheets nfc ns wb others = Inr items" by simp
    from Cons.IH[OF this Cons.prems(2)] show ?thesis by simp
  next
    case True
    with Cons.prems(1) obtain rest where
      rest: "scanSheets nfc ns wb others = Inr rest"
      and items: "items = scanRows nfc ns sheet (rowsOf wb sheet) @ rest"
      by (auto simp: Let_def split: if_splits sum.splits)
    from Cons.prems(2) items
    consider "it \<in> set (scanRows nfc ns sheet (rowsOf wb sheet))" | "it \<in> set rest"
      by auto
    then show ?thesis
    proof cases
      case 1
      from scanRows_fields[OF 1] True show ?thesis by simp
    next
      case 2
      from Cons.IH[OF rest 2] show ?thesis by simp
    qed
  qed
qed

text \<open>
  What every item of a successful scan does satisfy: its country is truthy, its name is
  not empty, its price is finite and positive, and its price group is the name of a
  permitted sheet of the workbook.
\<close>

lemma scan_items_validated:
  assumes "scan nfc ns wb = Inr items" and "it \<in> set items"
  shows "strTruthy (country it) \<and> name it \<noteq> [] \<and> finitePositive (price it)
     \<and> priceGroup it \<in> set ALLOWED_SHEETS \<and> priceGroup it \<in> set (SheetNames wb)"
proof -
  from assms(1) have "scanSheets nfc ns wb (SheetNames wb) = Inr items"
    by (auto simp: scan_def split: if_splits sum.splits)
  from scanSheets_fields[OF this assms(2)] show ?thesis .
qed

text \<open>
  Claim C4 says that every item of a successful scan has a non-empty country label, a
  non-empty name, a finite positive price and the name of a permitted sheet as its price
  group. The lemma above proves all of it but the label: the country is truthy. It need
  not be a string. For the country text \<open>constructor\<close> the lookup
  \<open>COUNTRY_ISO_MAP[s]\<close> finds the function that the table object inherits from
  \<open>Object.prototype\<close>, and \<open>normalizeCountry\<close> returns it; the scan succeeds with
  an item whose country is that function.
\<close>

theorem inherited_country_item:
  "scan nfcHangul printInteger wbConstructor =
     Inr [\<lparr>country = Inherited (ascii ''constructor''), name = ascii ''A'', price = Fin 100,
            priceGroup = sheet1\<rparr>]"
  by (simp add: wbConstructor_def sheet1_def headerBCD_def scan_eval text_eval country_eval
      number_eval)

end
